theory Spec2Isabelle
  imports Complex_Main "HOL-Library.Log_Nat"
begin

section \<open>Values of the Python runtime\<close>

text \<open>
  The program is \<^verbatim>\<open>memc_load_multithreading.py\<close>. Byte strings (\<^verbatim>\<open>bytes\<close>) are lists
  of 8-bit characters, text (\<^verbatim>\<open>str\<close>) is a list of Unicode code points, Python's
  unbounded integers are \<^typ>\<open>int\<close> and the two tallies, which start at 0 and are only
  incremented, are \<^typ>\<open>nat\<close>. An exception is a value of \<open>exn\<close>; a function that can raise
  returns \<open>exn + 'a\<close> with \<open>Inl\<close> for the raise.
\<close>

type_synonym bytes = string
type_synonym str = "nat list"

datatype exn =
    UnicodeDecodeError
  | ValueError
  | OverflowError
  | ZeroDivisionError
  | Foreign string  \<comment> \<open>an exception of a library, a subclass of \<^verbatim>\<open>Exception\<close>\<close>
  | Abort string    \<comment> \<open>a \<^verbatim>\<open>BaseException\<close> that is not an \<^verbatim>\<open>Exception\<close>\<close>

fun is_Exception :: "exn \<Rightarrow> bool" where
  "is_Exception (Abort _) = False"
| "is_Exception _ = True"

definition lit :: "string \<Rightarrow> str" where
  "lit s = map of_char s"

subsection \<open>Floats\<close>

text \<open>
  A \<^verbatim>\<open>float\<close> is an IEEE 754 binary64 value: a finite one is the rational it denotes,
  with the negative zero, the infinities and NaN apart. \<open>to_binary64\<close> rounds a rational to
  the nearest such value, ties to even, with gradual underflow below \<open>2\<^sup>-\<^sup>1\<^sup>0\<^sup>2\<^sup>2\<close> and
  overflow to an infinity from \<open>2\<^sup>1\<^sup>0\<^sup>2\<^sup>4\<close> on.
\<close>

datatype pyfloat = Finite rat | NegZero | PosInf | NegInf | NaN

definition pow2 :: "int \<Rightarrow> rat" where
  "pow2 k = (if 0 \<le> k then 2 ^ nat k else 1 / 2 ^ nat (- k))"

definition ilog2 :: "rat \<Rightarrow> int" where
  "ilog2 q = (let (a, b) = quotient_of q;
                  k = bitlen a - bitlen b
              in if pow2 k \<le> q then k else k - 1)"

definition round_half_even :: "rat \<Rightarrow> int" where
  "round_half_even q = (let f = \<lfloor>q\<rfloor>; r = q - of_int f
     in if r < 1 / 2 then f else if 1 / 2 < r then f + 1 else if even f then f else f + 1)"

definition round_binary64 :: "rat \<Rightarrow> rat" where
  "round_binary64 q = (let u = pow2 (max (ilog2 q - 52) (- 1074))
                       in of_int (round_half_even (q / u)) * u)"

definition to_binary64 :: "rat \<Rightarrow> pyfloat" where
  "to_binary64 q =
     (if q = 0 then Finite 0
      else if 0 < q then
        (let r = round_binary64 q in if pow2 1024 \<le> r then PosInf else Finite r)
      else
        (let r = round_binary64 (- q)
         in if pow2 1024 \<le> r then NegInf else if r = 0 then NegZero else Finite (- r)))"

text \<open>\<^verbatim>\<open>float(n)\<close> of an integer: correctly rounded, \<^verbatim>\<open>OverflowError\<close> when too large.\<close>

definition float_of_int :: "int \<Rightarrow> exn + pyfloat" where
  "float_of_int n =
     (case to_binary64 (of_int n) of
        PosInf \<Rightarrow> Inl OverflowError
      | NegInf \<Rightarrow> Inl OverflowError
      | f \<Rightarrow> Inr f)"

fun is_zero :: "pyfloat \<Rightarrow> bool" where
  "is_zero (Finite q) = (q = 0)"
| "is_zero NegZero = True"
| "is_zero _ = False"

fun is_neg :: "pyfloat \<Rightarrow> bool" where
  "is_neg (Finite q) = (q < 0)"
| "is_neg NegZero = True"
| "is_neg NegInf = True"
| "is_neg _ = False"

fun is_inf :: "pyfloat \<Rightarrow> bool" where
  "is_inf PosInf = True"
| "is_inf NegInf = True"
| "is_inf _ = False"

fun fin_value :: "pyfloat \<Rightarrow> rat" where
  "fin_value (Finite q) = q"
| "fin_value _ = 0"

text \<open>\<^verbatim>\<open>x / y\<close> on floats: \<^verbatim>\<open>ZeroDivisionError\<close> for a zero divisor, IEEE otherwise.\<close>

definition float_truediv :: "pyfloat \<Rightarrow> pyfloat \<Rightarrow> exn + pyfloat" where
  "float_truediv x y =
     (if is_zero y then Inl ZeroDivisionError
      else if x = NaN \<or> y = NaN then Inr NaN
      else if is_inf x then
        (if is_inf y then Inr NaN
         else Inr (if is_neg x \<noteq> is_neg y then NegInf else PosInf))
      else if is_inf y \<or> is_zero x then
        Inr (if is_neg x \<noteq> is_neg y then NegZero else Finite 0)
      else Inr (to_binary64 (fin_value x / fin_value y)))"

text \<open>\<^verbatim>\<open>x < y\<close> on floats: false as soon as one side is NaN.\<close>

definition float_lt :: "pyfloat \<Rightarrow> pyfloat \<Rightarrow> bool" where
  "float_lt x y =
     (if x = NaN \<or> y = NaN then False
      else if x = NegInf then y \<noteq> NegInf
      else if y = PosInf then x \<noteq> PosInf
      else if x = PosInf \<or> y = NegInf then False
      else fin_value x < fin_value y)"

definition NORMAL_ERR_RATE :: pyfloat where
  "NORMAL_ERR_RATE = to_binary64 (1 / 100)"

section \<open>Effects and the outside world\<close>

text \<open>
  \<open>appsinstalled\<close> is the named tuple \<^verbatim>\<open>AppsInstalled\<close>. What the program does to the
  outside is recorded, in order, as a list of events: the calls to \<^verbatim>\<open>logging\<close>, the
  construction of a memcache client, each \<^verbatim>\<open>memc.set\<close>, each \<^verbatim>\<open>os.rename\<close> and each
  \<^verbatim>\<open>task_done\<close>.
\<close>

record appsinstalled =
  dev_type :: str
  dev_id :: str
  lat :: pyfloat
  lon :: pyfloat
  apps :: "int list"

text \<open>The protobuf message \<^verbatim>\<open>UserApps\<close> as the program fills it: three fields.\<close>

record userapps =
  ua_lat :: pyfloat
  ua_lon :: pyfloat
  ua_apps :: "int list"

datatype logmsg =
    NotAllDigits str
  | InvalidGeo str
  | UnknownDeviceType str
  | CannotWrite string exn
  | DryRun string str userapps
  | AcceptableRate pyfloat
  | HighRate pyfloat pyfloat

datatype event =
    LogDebug logmsg
  | LogInfo logmsg
  | LogError logmsg
  | LogException logmsg
  | ClientNew string
  | MemcSet string str bytes
  | OsRename string string
  | TaskDone

text \<open>The events that touch the store.\<close>

fun store_event :: "event \<Rightarrow> bool" where
  "store_event (ClientNew _) = True"
| "store_event (MemcSet _ _ _) = True"
| "store_event _ = False"

text \<open>
  The collaborators that are not part of the file are parameters. Of the interpreter: its
  Unicode tables from code point 127 on (\<open>decimal_value\<close> is \<^verbatim>\<open>Py_UNICODE_TODECIMAL\<close>,
  \<open>digit_char\<close> is \<^verbatim>\<open>Py_UNICODE_ISDIGIT\<close>) and its limit on the digits of an integer literal
  (\<^verbatim>\<open>sys.get_int_max_str_digits()\<close>, 0 for none). Of the outside: the generated protobuf
  module \<^verbatim>\<open>appsinstalled_pb2\<close> (\<open>serialize\<close> stands for filling the message and
  \<^verbatim>\<open>SerializeToString\<close>), the \<^verbatim>\<open>memcache\<close> client and the file system. Each external call
  answers from a world state \<open>'w\<close> with an optional exception.
\<close>

record interp =
  decimal_value :: "nat \<Rightarrow> nat option"
  digit_char :: "nat \<Rightarrow> bool"
  int_max_str_digits :: nat

record 'w env =
  python :: interp
  serialize :: "userapps \<Rightarrow> exn + bytes"
  client_new :: "string \<Rightarrow> 'w \<Rightarrow> exn option \<times> 'w"
  client_set :: "string \<Rightarrow> str \<Rightarrow> bytes \<Rightarrow> 'w \<Rightarrow> exn option \<times> 'w"
  os_rename :: "string \<Rightarrow> string \<Rightarrow> 'w \<Rightarrow> exn option \<times> 'w"

text \<open>
  The state a run threads through: the dictionary \<^verbatim>\<open>stats\<close> of one file, the class
  attribute \<^verbatim>\<open>MemcachedConnectionPool._instances\<close> (the addresses that have a client), the
  events so far and the world.
\<close>

record 'w state =
  processed :: nat
  errors :: nat
  instances :: "string list"
  events :: "event list"
  world :: 'w

definition emit :: "event list \<Rightarrow> 'w state \<Rightarrow> 'w state" where
  "emit es st = st\<lparr>events := events st @ es\<rparr>"

section \<open>Text: decoding, stripping, splitting, numbers\<close>

subsection \<open>\<^verbatim>\<open>bytes.decode('utf-8')\<close>\<close>

text \<open>
  The strict UTF-8 decoder: shortest forms only, no surrogates, nothing above U+10FFFF.
  \<open>None\<close> is \<^verbatim>\<open>UnicodeDecodeError\<close>.
\<close>

definition is_cont :: "nat \<Rightarrow> bool" where
  "is_cont b = (0x80 \<le> b \<and> b \<le> 0xBF)"

fun utf8_decode :: "nat list \<Rightarrow> str option" where
  "utf8_decode [] = Some []"
| "utf8_decode (b # bs) =
     (if b < 0x80 then map_option ((#) b) (utf8_decode bs)
      else if 0xC2 \<le> b \<and> b \<le> 0xDF then
        (case bs of
           b1 # r \<Rightarrow>
             if is_cont b1
             then map_option ((#) ((b - 0xC0) * 64 + (b1 - 0x80))) (utf8_decode r)
             else None
         | _ \<Rightarrow> None)
      else if 0xE0 \<le> b \<and> b \<le> 0xEF then
        (case bs of
           b1 # b2 # r \<Rightarrow>
             if is_cont b1 \<and> is_cont b2 \<and>
                (if b = 0xE0 then 0xA0 \<le> b1 else if b = 0xED then b1 \<le> 0x9F else True)
             then map_option ((#) ((b - 0xE0) * 4096 + (b1 - 0x80) * 64 + (b2 - 0x80)))
                    (utf8_decode r)
             else None
         | _ \<Rightarrow> None)
      else if 0xF0 \<le> b \<and> b \<le> 0xF4 then
        (case bs of
           b1 # b2 # b3 # r \<Rightarrow>
             if is_cont b1 \<and> is_cont b2 \<and> is_cont b3 \<and>
                (if b = 0xF0 then 0x90 \<le> b1 else if b = 0xF4 then b1 \<le> 0x8F else True)
             then map_option
                    ((#) ((b - 0xF0) * 262144 + (b1 - 0x80) * 4096 + (b2 - 0x80) * 64 + (b3 - 0x80)))
                    (utf8_decode r)
             else None
         | _ \<Rightarrow> None)
      else None)"

definition bytes_decode :: "bytes \<Rightarrow> exn + str" where
  "bytes_decode b =
     (case utf8_decode (map of_char b) of None \<Rightarrow> Inl UnicodeDecodeError | Some s \<Rightarrow> Inr s)"

subsection \<open>\<^verbatim>\<open>strip\<close> and \<^verbatim>\<open>split\<close>\<close>

text \<open>
  \<^verbatim>\<open>bytes.strip()\<close> removes ASCII white space; \<^verbatim>\<open>str.strip()\<close> removes the characters
  for which \<^verbatim>\<open>str.isspace\<close> holds.
\<close>

definition ascii_ws :: "nat \<Rightarrow> bool" where
  "ascii_ws c = (c = 0x20 \<or> (0x09 \<le> c \<and> c \<le> 0x0D))"

definition py_isspace :: "nat \<Rightarrow> bool" where
  "py_isspace c =
     ((0x09 \<le> c \<and> c \<le> 0x0D) \<or> (0x1C \<le> c \<and> c \<le> 0x20) \<or> c = 0x85 \<or> c = 0xA0 \<or>
      c = 0x1680 \<or> (0x2000 \<le> c \<and> c \<le> 0x200A) \<or> c = 0x2028 \<or> c = 0x2029 \<or>
      c = 0x202F \<or> c = 0x205F \<or> c = 0x3000)"

definition strip_by :: "('a \<Rightarrow> bool) \<Rightarrow> 'a list \<Rightarrow> 'a list" where
  "strip_by P s = rev (dropWhile P (rev (dropWhile P s)))"

definition bytes_strip :: "bytes \<Rightarrow> bytes" where
  "bytes_strip = strip_by (\<lambda>c. ascii_ws (of_char c))"

definition str_strip :: "str \<Rightarrow> str" where
  "str_strip = strip_by py_isspace"

text \<open>\<^verbatim>\<open>s.split(sep)\<close> for a separator of one character: never an empty list.\<close>

fun split_on :: "'a \<Rightarrow> 'a list \<Rightarrow> 'a list list" where
  "split_on c [] = [[]]"
| "split_on c (x # xs) =
     (if x = c then [] # split_on c xs
      else (case split_on c xs of y # ys \<Rightarrow> (x # y) # ys | [] \<Rightarrow> [[x]]))"

subsection \<open>\<^verbatim>\<open>str.isdigit\<close>, \<^verbatim>\<open>int\<close> and \<^verbatim>\<open>float\<close> of a string\<close>

definition ascii_digit :: "nat \<Rightarrow> bool" where
  "ascii_digit c = (0x30 \<le> c \<and> c \<le> 0x39)"

definition py_isdigit :: "interp \<Rightarrow> str \<Rightarrow> bool" where
  "py_isdigit I s =
     (s \<noteq> [] \<and> list_all (\<lambda>c. if c < 127 then ascii_digit c else digit_char I c) s)"

text \<open>
  Both \<^verbatim>\<open>int\<close> and \<^verbatim>\<open>float\<close> first bring the string to ASCII: a character below 127 stays,
  other white space becomes a blank, another decimal digit becomes its ASCII digit, and
  anything else makes the number invalid.
\<close>

fun to_ascii :: "interp \<Rightarrow> str \<Rightarrow> str option" where
  "to_ascii I [] = Some []"
| "to_ascii I (c # cs) =
     (if c < 127 then map_option ((#) c) (to_ascii I cs)
      else if py_isspace c then map_option ((#) 0x20) (to_ascii I cs)
      else (case decimal_value I c of
              None \<Rightarrow> None
            | Some d \<Rightarrow> map_option ((#) (0x30 + d)) (to_ascii I cs)))"

text \<open>
  Underscores: one may stand between two digits and nowhere else; they are removed. The
  first argument is the character before.
\<close>

fun underscores :: "nat \<Rightarrow> str \<Rightarrow> str option" where
  "underscores prev [] = (if prev = 0x5F then None else Some [])"
| "underscores prev (c # cs) =
     (if c = 0x5F then (if ascii_digit prev then underscores c cs else None)
      else if prev = 0x5F \<and> \<not> ascii_digit c then None
      else map_option ((#) c) (underscores c cs))"

definition digits_value :: "str \<Rightarrow> int" where
  "digits_value ds = foldl (\<lambda>a c. 10 * a + (int c - 0x30)) 0 ds"

text \<open>An optional sign: whether it is a minus, and what follows it.\<close>

fun take_sign :: "str \<Rightarrow> bool \<times> str" where
  "take_sign [] = (False, [])"
| "take_sign (c # cs) =
     (if c = 0x2D then (True, cs) else if c = 0x2B then (False, cs) else (False, c # cs))"

text \<open>
  \<^verbatim>\<open>int(s)\<close> in base 10: white space around, a sign, digits with single underscores
  between them; \<^verbatim>\<open>ValueError\<close> otherwise, and also beyond the interpreter's digit limit.
\<close>

definition py_int :: "interp \<Rightarrow> str \<Rightarrow> exn + int" where
  "py_int I s =
     (case to_ascii I s of
        None \<Rightarrow> Inl ValueError
      | Some a \<Rightarrow>
          (let (neg, body) = take_sign (strip_by ascii_ws a)
           in case underscores 0 body of
                None \<Rightarrow> Inl ValueError
              | Some ds \<Rightarrow>
                  if ds = [] \<or> \<not> list_all ascii_digit ds then Inl ValueError
                  else if 640 < length ds \<and> 0 < int_max_str_digits I \<and>
                          int_max_str_digits I < length ds
                  then Inl ValueError
                  else Inr (if neg then - digits_value ds else digits_value ds)))"

text \<open>
  \<^verbatim>\<open>float(s)\<close>: after the sign either \<^verbatim>\<open>inf\<close>, \<^verbatim>\<open>infinity\<close> or \<^verbatim>\<open>nan\<close> in any case of
  letters, or a decimal numeral: digits with an optional point, at least one digit, and
  an optional exponent with at least one digit. The value is rounded to binary64.
\<close>

definition lower :: "nat \<Rightarrow> nat" where
  "lower c = (if 0x41 \<le> c \<and> c \<le> 0x5A then c + 0x20 else c)"

definition pow10 :: "int \<Rightarrow> rat" where
  "pow10 k = (if 0 \<le> k then 10 ^ nat k else 1 / 10 ^ nat (- k))"

text \<open>The exponent part: empty, or \<^verbatim>\<open>e\<close>, an optional sign and digits.\<close>

definition parse_exponent :: "str \<Rightarrow> int option" where
  "parse_exponent s =
     (case s of
        [] \<Rightarrow> Some 0
      | c # r \<Rightarrow>
          if lower c = 0x65 then
            (let (neg, ds) = take_sign r
             in if ds \<noteq> [] \<and> list_all ascii_digit ds
                then Some (if neg then - digits_value ds else digits_value ds)
                else None)
          else None)"

definition parse_decimal :: "bool \<Rightarrow> str \<Rightarrow> pyfloat option" where
  "parse_decimal neg s =
     (let ip = takeWhile ascii_digit s;
          r1 = dropWhile ascii_digit s;
          has_point = (r1 \<noteq> [] \<and> hd r1 = 0x2E);
          r2 = (if has_point then tl r1 else r1);
          fp = (if has_point then takeWhile ascii_digit r2 else []);
          r3 = (if has_point then dropWhile ascii_digit r2 else r2)
      in if ip = [] \<and> fp = [] then None
         else (case parse_exponent r3 of
                 None \<Rightarrow> None
               | Some e \<Rightarrow>
                   (let m = digits_value (ip @ fp)
                    in if m = 0 then Some (if neg then NegZero else Finite 0)
                       else Some (to_binary64
                              ((if neg then - 1 else 1) * of_int m * pow10 (e - int (length fp)))))))"

definition parse_float_literal :: "str \<Rightarrow> pyfloat option" where
  "parse_float_literal s =
     (let (neg, r) = take_sign s; w = map lower r
      in if w = lit ''inf'' \<or> w = lit ''infinity'' then Some (if neg then NegInf else PosInf)
         else if w = lit ''nan'' then Some NaN
         else parse_decimal neg r)"

definition py_float :: "interp \<Rightarrow> str \<Rightarrow> exn + pyfloat" where
  "py_float I s =
     (case to_ascii I s of
        None \<Rightarrow> Inl ValueError
      | Some a \<Rightarrow>
          (case underscores 0 a of
             None \<Rightarrow> Inl ValueError
           | Some t \<Rightarrow>
               (case parse_float_literal (strip_by ascii_ws t) of
                  None \<Rightarrow> Inl ValueError
                | Some f \<Rightarrow> Inr f)))"

section \<open>Marking a file as done\<close>

definition rstrip_char :: "char \<Rightarrow> string \<Rightarrow> string" where
  "rstrip_char c s = rev (dropWhile (\<lambda>x. x = c) (rev s))"

definition os_path_split :: "string \<Rightarrow> string \<times> string" where
  "os_path_split p =
     (let tail = rev (takeWhile (\<lambda>x. x \<noteq> CHR ''/'') (rev p));
          head = take (length p - length tail) p
      in (if head \<noteq> [] \<and> head \<noteq> replicate (length head) CHR ''/''
          then rstrip_char CHR ''/'' head else head, tail))"

definition os_path_join :: "string \<Rightarrow> string \<Rightarrow> string" where
  "os_path_join a b =
     (if b \<noteq> [] \<and> hd b = CHR ''/'' then b
      else if a = [] \<or> last a = CHR ''/'' then a @ b
      else a @ ''/'' @ b)"

definition dot_name :: "string \<Rightarrow> string" where
  "dot_name path = (let (head, fn) = os_path_split path in os_path_join head (''.'' @ fn))"

definition dot_rename :: "'w env \<Rightarrow> string \<Rightarrow> 'w state \<Rightarrow> exn option \<times> 'w state" where
  "dot_rename E path st =
     (let (r, w) = os_rename E path (dot_name path) (world st)
      in (r, (emit [OsRename path (dot_name path)] st)\<lparr>world := w\<rparr>))"

section \<open>The verdict of \<^verbatim>\<open>process_file\<close>\<close>

text \<open>
  \<^verbatim>\<open>float(stats['errors']) / stats['processed']\<close>: both tallies are converted to a float
  (the divisor by the division itself), then divided.
\<close>

definition err_rate_of :: "nat \<Rightarrow> nat \<Rightarrow> exn + pyfloat" where
  "err_rate_of e p =
     (case float_of_int (int e) of
        Inl x \<Rightarrow> Inl x
      | Inr a \<Rightarrow>
          (case float_of_int (int p) of
             Inl x \<Rightarrow> Inl x
           | Inr b \<Rightarrow> float_truediv a b))"

text \<open>
  The end of \<^verbatim>\<open>process_file\<close>, once every worker's result has been collected: the
  statements from \<^verbatim>\<open>if not stats['processed']\<close> to the last \<^verbatim>\<open>return True\<close>.
\<close>

definition returning :: "exn option \<times> 'w state \<Rightarrow> (exn + bool) \<times> 'w state" where
  "returning r = (case r of (Some x, st) \<Rightarrow> (Inl x, st) | (None, st) \<Rightarrow> (Inr True, st))"

definition process_file_verdict :: "'w env \<Rightarrow> string \<Rightarrow> 'w state \<Rightarrow> (exn + bool) \<times> 'w state" where
  "process_file_verdict E filename st =
     (if processed st = 0 then returning (dot_rename E filename st)
      else
        (case err_rate_of (errors st) (processed st) of
           Inl x \<Rightarrow> (Inl x, st)
         | Inr err_rate \<Rightarrow>
             returning (dot_rename E filename
               (emit [if float_lt err_rate NORMAL_ERR_RATE
                      then LogInfo (AcceptableRate err_rate)
                      else LogError (HighRate err_rate NORMAL_ERR_RATE)] st))))"

section \<open>\<^verbatim>\<open>parse_appsinstalled\<close>\<close>

text \<open>
  The result is \<open>Inl\<close> of the exception the function raises, \<open>Inr None\<close> when it returns
  \<^verbatim>\<open>None\<close> and \<open>Inr (Some r)\<close> when it returns a record, together with what it logged.
  \<open>int_each\<close> is a list comprehension of \<^verbatim>\<open>int(a.strip())\<close>: it stops at the first
  element that raises.
\<close>

fun int_each :: "interp \<Rightarrow> str list \<Rightarrow> exn + int list" where
  "int_each I [] = Inr []"
| "int_each I (a # as) =
     (case py_int I (str_strip a) of
        Inl x \<Rightarrow> Inl x
      | Inr n \<Rightarrow> (case int_each I as of Inl x \<Rightarrow> Inl x | Inr ns \<Rightarrow> Inr (n # ns)))"

text \<open>\<^verbatim>\<open>except ValueError\<close> catches the class and its subclasses.\<close>

fun is_ValueError :: "exn \<Rightarrow> bool" where
  "is_ValueError ValueError = True"
| "is_ValueError UnicodeDecodeError = True"
| "is_ValueError _ = False"

text \<open>The second \<^verbatim>\<open>try\<close>: both coordinates, then the record.\<close>

definition parse_geo ::
  "interp \<Rightarrow> str \<Rightarrow> str \<Rightarrow> str \<Rightarrow> str \<Rightarrow> str \<Rightarrow> int list \<Rightarrow> event list
     \<Rightarrow> (exn + appsinstalled option) \<times> event list" where
  "parse_geo I line dt di lat_s lon_s as evs =
     (case py_float I lat_s of
        Inl x \<Rightarrow>
          if is_ValueError x then (Inr None, evs @ [LogInfo (InvalidGeo line)]) else (Inl x, evs)
      | Inr la \<Rightarrow>
          (case py_float I lon_s of
             Inl x \<Rightarrow>
               if is_ValueError x then (Inr None, evs @ [LogInfo (InvalidGeo line)])
               else (Inl x, evs)
           | Inr lo \<Rightarrow>
               (Inr (Some \<lparr>dev_type = dt, dev_id = di, lat = la, lon = lo, apps = as\<rparr>), evs)))"

definition parse_appsinstalled ::
  "interp \<Rightarrow> bytes \<Rightarrow> (exn + appsinstalled option) \<times> event list" where
  "parse_appsinstalled I raw =
     (case bytes_decode raw of
        Inl x \<Rightarrow> (Inl x, [])
      | Inr decoded \<Rightarrow>
          (let line = str_strip decoded;
               line_parts = split_on 0x09 line
           in if length line_parts < 5 then (Inr None, [])
              else
                (case line_parts of
                   [dt, di, lat_s, lon_s, raw_apps] \<Rightarrow>
                     if dt = [] \<or> di = [] then (Inr None, [])
                     else
                       (case int_each I (split_on 0x2C raw_apps) of
                          Inr as \<Rightarrow> parse_geo I line dt di lat_s lon_s as []
                        | Inl x \<Rightarrow>
                            if is_ValueError x then
                              (case int_each I (filter (py_isdigit I) (split_on 0x2C raw_apps)) of
                                 Inl y \<Rightarrow> (Inl y, [])
                               | Inr as \<Rightarrow>
                                   parse_geo I line dt di lat_s lon_s as
                                     [LogInfo (NotAllDigits line)])
                            else (Inl x, []))
                 | _ \<Rightarrow> (Inl ValueError, []))))"

section \<open>\<^verbatim>\<open>insert_appsinstalled\<close> and the connection pool\<close>

text \<open>
  \<^verbatim>\<open>MemcachedConnectionPool.get_client\<close>: a client is constructed for an address that has
  none and kept; the lock it holds meanwhile has no effect on a run of one thread.
\<close>

definition get_client :: "'w env \<Rightarrow> string \<Rightarrow> 'w state \<Rightarrow> exn option \<times> 'w state" where
  "get_client E memc_addr st =
     (if memc_addr \<in> set (instances st) then (None, st)
      else
        (let (r, w) = client_new E memc_addr (world st);
             st1 = (emit [ClientNew memc_addr] st)\<lparr>world := w\<rparr>
         in case r of
              Some x \<Rightarrow> (Some x, st1)
            | None \<Rightarrow> (None, st1\<lparr>instances := instances st1 @ [memc_addr]\<rparr>)))"

definition user_apps_of :: "appsinstalled \<Rightarrow> userapps" where
  "user_apps_of a = \<lparr>ua_lat = lat a, ua_lon = lon a, ua_apps = apps a\<rparr>"

definition store_key :: "appsinstalled \<Rightarrow> str" where
  "store_key a = dev_type a @ lit '':'' @ dev_id a"

text \<open>The handler \<^verbatim>\<open>except Exception as e\<close> around the write.\<close>

definition write_failed ::
  "string \<Rightarrow> exn \<Rightarrow> 'w state \<Rightarrow> (exn + bool) \<times> 'w state" where
  "write_failed memc_addr x st =
     (if is_Exception x then (Inr False, emit [LogException (CannotWrite memc_addr x)] st)
      else (Inl x, st))"

definition insert_appsinstalled ::
  "'w env \<Rightarrow> string \<Rightarrow> appsinstalled \<Rightarrow> bool \<Rightarrow> 'w state \<Rightarrow> (exn + bool) \<times> 'w state" where
  "insert_appsinstalled E memc_addr a dry_run st =
     (case serialize E (user_apps_of a) of
        Inl x \<Rightarrow> (Inl x, st)
      | Inr packed \<Rightarrow>
          if dry_run
          then (Inr True, emit [LogDebug (DryRun memc_addr (store_key a) (user_apps_of a))] st)
          else
            (case get_client E memc_addr st of
               (Some x, st1) \<Rightarrow> write_failed memc_addr x st1
             | (None, st1) \<Rightarrow>
                 (let (r, w) = client_set E memc_addr (store_key a) packed (world st1);
                      st2 = (emit [MemcSet memc_addr (store_key a) packed] st1)\<lparr>world := w\<rparr>
                  in case r of
                       Some x \<Rightarrow> write_failed memc_addr x st2
                     | None \<Rightarrow> (Inr True, st2))))"

section \<open>\<^verbatim>\<open>line_worker\<close>\<close>

record options =
  idfa :: string
  gaid :: string
  adid :: string
  dvid :: string
  dry :: bool
  workers :: int

definition device_memc :: "options \<Rightarrow> str \<Rightarrow> string option" where
  "device_memc opts =
     map_of [(lit ''idfa'', idfa opts), (lit ''gaid'', gaid opts),
             (lit ''adid'', adid opts), (lit ''dvid'', dvid opts)]"

text \<open>
  One turn of the loop on a line taken from the queue: the exception that leaves the loop,
  if any, and the state after. The lock around each update of \<^verbatim>\<open>stats\<close> has no effect
  on a run of one thread.
\<close>

definition handle_line ::
  "'w env \<Rightarrow> options \<Rightarrow> bytes \<Rightarrow> 'w state \<Rightarrow> exn option \<times> 'w state" where
  "handle_line E opts line st =
     (case parse_appsinstalled (python E) line of
        (Inl x, evs) \<Rightarrow> (Some x, emit evs st)
      | (Inr None, evs) \<Rightarrow>
          (None, emit [TaskDone] ((emit evs st)\<lparr>errors := errors st + 1\<rparr>))
      | (Inr (Some a), evs) \<Rightarrow>
          (case device_memc opts (dev_type a) of
             None \<Rightarrow>
               (None, emit [LogError (UnknownDeviceType (dev_type a)), TaskDone]
                        ((emit evs st)\<lparr>errors := errors st + 1\<rparr>))
           | Some memc_addr \<Rightarrow>
               if memc_addr = [] then
                 (None, emit [LogError (UnknownDeviceType (dev_type a)), TaskDone]
                          ((emit evs st)\<lparr>errors := errors st + 1\<rparr>))
               else
                 (case insert_appsinstalled E memc_addr a (dry opts) (emit evs st) of
                    (Inl x, st1) \<Rightarrow> (Some x, st1)
                  | (Inr ok, st1) \<Rightarrow>
                      (None, emit [TaskDone]
                               (if ok then st1\<lparr>processed := processed st1 + 1\<rparr>
                                else st1\<lparr>errors := errors st1 + 1\<rparr>)))))"

text \<open>
  The loop, run on what the queue holds: \<open>None\<close> is the sentinel. An empty queue is the
  timeout of \<^verbatim>\<open>get\<close> (\<^verbatim>\<open>queue.Empty\<close>), which ends the loop as the sentinel does. The
  result says how the worker ended and what it left in the queue.
\<close>

datatype worker_end = Stopped | Raised exn

fun line_worker ::
  "'w env \<Rightarrow> options \<Rightarrow> bytes option list \<Rightarrow> 'w state
     \<Rightarrow> worker_end \<times> bytes option list \<times> 'w state" where
  "line_worker E opts [] st = (Stopped, [], st)"
| "line_worker E opts (None # q) st = (Stopped, q, emit [TaskDone] st)"
| "line_worker E opts (Some line # q) st =
     (case handle_line E opts line st of
        (Some x, st1) \<Rightarrow> (Raised x, q, st1)
      | (None, st1) \<Rightarrow> line_worker E opts q st1)"

text \<open>The lines a queue holds, its sentinels left out.\<close>

definition lines_in :: "bytes option list \<Rightarrow> nat" where
  "lines_in q = length (filter (\<lambda>i. i \<noteq> None) q)"

section \<open>The two ends of \<^verbatim>\<open>process_file\<close>\<close>

text \<open>
  What the producer puts into the queue for the lines read from the file: each line
  stripped, the empty ones left out, then one sentinel for each worker.
\<close>

definition fed_lines :: "bytes list \<Rightarrow> bytes list" where
  "fed_lines ls = filter (\<lambda>l. l \<noteq> []) (map bytes_strip ls)"

definition process_file_puts :: "options \<Rightarrow> bytes list \<Rightarrow> bytes option list" where
  "process_file_puts opts ls = map Some (fed_lines ls) @ replicate (nat (workers opts)) None"

text \<open>
  \<^verbatim>\<open>for future in futures: future.result()\<close> raises what the first worker that raised
  left in its future; the verdict follows when none did.
\<close>

fun first_raised :: "worker_end list \<Rightarrow> exn option" where
  "first_raised [] = None"
| "first_raised (Stopped # rs) = first_raised rs"
| "first_raised (Raised x # rs) = Some x"

definition process_file_results ::
  "'w env \<Rightarrow> string \<Rightarrow> worker_end list \<Rightarrow> 'w state \<Rightarrow> (exn + bool) \<times> 'w state" where
  "process_file_results E filename futures st =
     (case first_raised futures of
        Some x \<Rightarrow> (Inl x, st)
      | None \<Rightarrow> process_file_verdict E filename st)"

section \<open>The serializer\<close>

text \<open>
  Modelled from the spec: the serializer. The program serializes a message with the generated
  module \<^verbatim>\<open>appsinstalled_pb2\<close> and the protobuf library, neither of which is among the sources.
  The spec (4.2 and 6) fixes a binary message with the fields \<^verbatim>\<open>lat\<close> (double), \<^verbatim>\<open>lon\<close>
  (double) and \<^verbatim>\<open>apps\<close> (repeated integer), and the app ids of a Record are 64-bit
  integers. The model is the protobuf wire format of such a message, its fields numbered in
  that order: a tag byte before each value, a double as the eight bytes of its IEEE 754
  pattern, least significant first, an integer as the base-128 varint of its two's
  complement. A decoder reads the fields in any order; a field it does not know is an error.
\<close>

fun varint :: "nat \<Rightarrow> nat list" where
  "varint n = (if n < 128 then [n] else (128 + n mod 128) # varint (n div 128))"

declare varint.simps [simp del]

fun unvarint :: "nat list \<Rightarrow> (nat \<times> nat list) option" where
  "unvarint [] = None"
| "unvarint (b # bs) =
     (if b < 128 then Some (b, bs)
      else (case unvarint bs of
              None \<Rightarrow> None
            | Some (n, r) \<Rightarrow> Some (b - 128 + 128 * n, r)))"

fun le_bytes :: "nat \<Rightarrow> nat \<Rightarrow> nat list" where
  "le_bytes 0 n = []"
| "le_bytes (Suc k) n = (n mod 256) # le_bytes k (n div 256)"

fun le_value :: "nat list \<Rightarrow> nat" where
  "le_value [] = 0"
| "le_value (b # bs) = b + 256 * le_value bs"

definition int64_bits :: "int \<Rightarrow> nat" where
  "int64_bits a = nat (a mod 2 ^ 64)"

definition int64_of_bits :: "nat \<Rightarrow> int" where
  "int64_of_bits n = (if n < 2 ^ 63 then int n else int n - 2 ^ 64)"

text \<open>The IEEE 754 pattern of a float, and the float of a pattern.\<close>

definition float_bits :: "pyfloat \<Rightarrow> nat" where
  "float_bits f =
     (case f of
        NaN \<Rightarrow> 0x7FF8000000000000
      | PosInf \<Rightarrow> 0x7FF0000000000000
      | NegInf \<Rightarrow> 0xFFF0000000000000
      | NegZero \<Rightarrow> 0x8000000000000000
      | Finite q \<Rightarrow>
          if q = 0 then 0
          else
            (let a = \<bar>q\<bar>; e = ilog2 a; s = (if q < 0 then 2 ^ 63 else 0)
             in if - 1022 \<le> e
                then s + nat (e + 1023) * 2 ^ 52 + (nat \<lfloor>a * pow2 (52 - e)\<rfloor> - 2 ^ 52)
                else s + nat \<lfloor>a * pow2 1074\<rfloor>))"

definition float_of_bits :: "nat \<Rightarrow> pyfloat" where
  "float_of_bits b =
     (let neg = (b div 2 ^ 63) mod 2 = 1;
          e = (b div 2 ^ 52) mod 2048;
          m = b mod 2 ^ 52
      in if e = 2047 then (if m = 0 then (if neg then NegInf else PosInf) else NaN)
         else if e = 0 then
           (if m = 0 then (if neg then NegZero else Finite 0)
            else Finite ((if neg then - 1 else 1) * of_nat m * pow2 (- 1074)))
         else Finite ((if neg then - 1 else 1) * of_nat (2 ^ 52 + m) * pow2 (int e - 1075)))"

definition encode_payload :: "userapps \<Rightarrow> nat list" where
  "encode_payload u =
     0x09 # le_bytes 8 (float_bits (ua_lat u)) @
     0x11 # le_bytes 8 (float_bits (ua_lon u)) @
     concat (map (\<lambda>a. 0x18 # varint (int64_bits a)) (ua_apps u))"

text \<open>The decoder's loop ends: a varint takes at least one byte.\<close>

lemma unvarint_shorter: "unvarint bs = Some (n, r) \<Longrightarrow> length r < length bs"
  by (induction bs arbitrary: n r) (auto split: if_splits option.splits)

function decode_fields :: "nat list \<Rightarrow> userapps \<Rightarrow> userapps option" where
  "decode_fields [] u = Some u"
| "decode_fields (t # bs) u =
     (if t = 0x09 then
        (if 8 \<le> length bs
         then decode_fields (drop 8 bs) (u\<lparr>ua_lat := float_of_bits (le_value (take 8 bs))\<rparr>)
         else None)
      else if t = 0x11 then
        (if 8 \<le> length bs
         then decode_fields (drop 8 bs) (u\<lparr>ua_lon := float_of_bits (le_value (take 8 bs))\<rparr>)
         else None)
      else if t = 0x18 then
        (case unvarint bs of
           None \<Rightarrow> None
         | Some (n, r) \<Rightarrow> decode_fields r (u\<lparr>ua_apps := ua_apps u @ [int64_of_bits n]\<rparr>))
      else None)"
  by pat_completeness auto
termination
  by (relation "measure (\<lambda>(bs, u). length bs)") (auto dest: unvarint_shorter)

definition decode_payload :: "nat list \<Rightarrow> userapps option" where
  "decode_payload bs = decode_fields bs \<lparr>ua_lat = Finite 0, ua_lon = Finite 0, ua_apps = []\<rparr>"

text \<open>
  Modelled from the spec: \<open>encode\<close> and \<open>decode\<close> on byte strings, and the messages the
  round trip is claimed for: coordinates that are finite floats, app ids within 64 bits.
\<close>

definition representable :: "rat \<Rightarrow> bool" where
  "representable q = (to_binary64 q = Finite q)"

fun finite_float :: "pyfloat \<Rightarrow> bool" where
  "finite_float (Finite q) = representable q"
| "finite_float NegZero = True"
| "finite_float _ = False"

definition encode :: "userapps \<Rightarrow> bytes" where
  "encode u = map char_of (encode_payload u)"

definition decode :: "bytes \<Rightarrow> userapps option" where
  "decode b = decode_payload (map of_char b)"

definition valid_payload :: "userapps \<Rightarrow> bool" where
  "valid_payload u =
     (finite_float (ua_lat u) \<and> finite_float (ua_lon u) \<and>
      list_all (\<lambda>a. - (2 ^ 63) \<le> a \<and> a < 2 ^ 63) (ua_apps u))"

section \<open>A quiet environment for concrete runs\<close>

text \<open>
  \<open>env0\<close> is an outside world in which no call fails and \<open>state0\<close> the state at the start
  of a file; concrete runs below are evaluated in them.
\<close>

definition env0 :: "unit env" where
  "env0 = \<lparr>python = \<lparr>decimal_value = (\<lambda>c. None), digit_char = (\<lambda>c. False),
                     int_max_str_digits = 4300\<rparr>,
           serialize = (\<lambda>r. Inr []),
           client_new = (\<lambda>a w. (None, w)),
           client_set = (\<lambda>a k v w. (None, w)),
           os_rename = (\<lambda>a b w. (None, w))\<rparr>"

definition state0 :: "unit state" where
  "state0 = \<lparr>processed = 0, errors = 0, instances = [], events = [], world = ()\<rparr>"


text \<open>A line of tab-separated fields, and the options the program starts with by default.\<close>

fun tsv :: "string list \<Rightarrow> bytes" where
  "tsv [] = []"
| "tsv [x] = x"
| "tsv (x # y # r) = x @ [CHR 0x09] @ tsv (y # r)"

definition opts0 :: options where
  "opts0 = \<lparr>idfa = ''127.0.0.1:33013'', gaid = ''127.0.0.1:33014'', adid = ''127.0.0.1:33015'',
            dvid = ''127.0.0.1:33016'', dry = False, workers = 1\<rparr>"

text \<open>The same world, but every \<^verbatim>\<open>memc.set\<close> raises the given exception.\<close>

definition env_set_raises :: "exn \<Rightarrow> unit env" where
  "env_set_raises x = env0\<lparr>client_set := (\<lambda>a k v w. (Some x, w))\<rparr>"

text \<open>Lines for the concrete runs: the spec's mixed apps field, with good and with bad coordinates, and a line of six fields.\<close>

definition mixed_line :: bytes where
  "mixed_line = tsv [''idfa'', ''X1'', ''55.55'', ''42.42'', ''10,abc,30'']"

definition mixed_bad_geo :: bytes where
  "mixed_bad_geo = tsv [''idfa'', ''X1'', ''abc'', ''42.42'', ''10,abc,30'']"

definition mixed_unrouted :: bytes where
  "mixed_unrouted = tsv [''unknown'', ''X1'', ''55.55'', ''42.42'', ''10,abc,30'']"

definition mixed_no_id :: bytes where
  "mixed_no_id = tsv [''idfa'', '''', ''55.55'', ''42.42'', ''10,abc,30'']"

definition six_fields :: bytes where
  "six_fields = tsv [''idfa'', ''X1'', ''55.55'', ''42.42'', ''1,2'', ''extra'']"

definition newline :: bytes where
  "newline = [CHR 0x0A]"

text \<open>
  An interpreter whose tables hold one character from 127 on, U+00B2 (superscript two): a
  digit for \<^verbatim>\<open>str.isdigit\<close> that has no decimal value, as in the Unicode database. The line
  is the spec's example with that character, in UTF-8, as the second app id.
\<close>

definition env_sup2 :: "unit env" where
  "env_sup2 = env0\<lparr>python := (python env0)\<lparr>digit_char := (\<lambda>c. c = 0xB2)\<rparr>\<rparr>"

definition sup2_line :: bytes where
  "sup2_line = tsv [''idfa'', ''X1'', ''55.55'', ''42.42'', ''10,'' @ [CHR 0xC2, CHR 0xB2] @ '',30'']"

section \<open>Facts about the float model\<close>

lemma round_half_even_of_int: "round_half_even (of_int m) = m"
  by (simp add: round_half_even_def)

lemma bitlen_ge1: "0 < n \<Longrightarrow> 1 \<le> bitlen n"
  using bitlen_eq_zero_iff[of n] bitlen_nonneg[of n] by linarith

lemma ilog2_of_int: 
  assumes "0 < n" shows "ilog2 (of_int n) = bitlen n - 1"
proof -
  have b1: "bitlen 1 = 1" by (subst compute_bitlen) simp
  have ge: "1 \<le> bitlen n" using assms by (rule bitlen_ge1)
  have "2 ^ nat (bitlen n - 1) \<le> n" using bitlen_bounds[OF assms] by simp
  then have "(of_int (2 ^ nat (bitlen n - 1)) :: rat) \<le> of_int n" 
    by (simp only: of_int_le_iff)
  then have "pow2 (bitlen n - 1) \<le> of_int n" using ge by (simp add: pow2_def)
  then show ?thesis by (simp add: ilog2_def b1)
qed

lemma bitlen_le53:
  assumes "0 < n" "n < 2 ^ 53" shows "bitlen n \<le> 53"
proof -
  have h: "(2::int) ^ nat (bitlen n - 1) < 2 ^ 53" using bitlen_bounds[OF assms(1)] assms(2) by linarith
  have "nat (bitlen n - 1) < 53" by (rule power_less_imp_less_exp[where a = "2::int"]) (simp, fact h)
  then show ?thesis by linarith
qed

lemma round_binary64_of_int:
  assumes "0 < n" "n < 2 ^ 53" shows "round_binary64 (of_int n) = of_int n"
proof -
  define d where "d = nat (53 - bitlen n)"
  have ge: "1 \<le> bitlen n" using assms(1) by (rule bitlen_ge1)
  have le: "bitlen n \<le> 53" using assms by (rule bitlen_le53)
  have m: "max (ilog2 (of_int n) - 52) (- 1074) = - int d"
    using ge le by (simp add: ilog2_of_int[OF assms(1)] d_def)
  have u: "pow2 (- int d) = 1 / 2 ^ d" by (cases "d = 0") (simp_all add: pow2_def)
  have "(of_int n :: rat) / (1 / 2 ^ d) = of_int (n * 2 ^ d)" by simp
  then have "round_half_even (of_int n / (1 / 2 ^ d)) = n * 2 ^ d"
    by (simp only: round_half_even_of_int)
  then show ?thesis by (simp add: round_binary64_def m u)
qed

lemma to_binary64_of_nat:
  assumes "n < 2 ^ 53" shows "to_binary64 (of_nat n) = Finite (of_nat n)"
proof (cases "n = 0")
  case True then show ?thesis by (simp add: to_binary64_def)
next
  case False
  have lt: "int n < 2 ^ 53" using assms by (metis of_nat_less_numeral_power_cancel_iff)
  have pos: "0 < int n" using False by simp
  have r: "round_binary64 (of_int (int n)) = of_int (int n)"
    using pos lt by (rule round_binary64_of_int)
  have "(of_int (int n) :: rat) < of_int (2 ^ 53)" using lt by (simp only: of_int_less_iff)
  moreover have "(of_int (2 ^ 53) :: rat) \<le> 2 ^ 1024" by simp
  ultimately have "\<not> (2::rat) ^ 1024 \<le> of_int (int n)" by linarith
  then show ?thesis using False r by (simp add: to_binary64_def pow2_def Let_def)
qed

lemma float_of_int_exact: "n < 2 ^ 53 \<Longrightarrow> float_of_int (int n) = Inr (Finite (of_nat n))"
  using to_binary64_of_nat[of n] by (simp add: float_of_int_def)

lemma err_rate_of_exact:
  assumes "0 < p" "p < 2 ^ 53" "e < 2 ^ 53"
  shows "err_rate_of e p = Inr (to_binary64 (of_nat e / of_nat p))"
  using assms by (simp add: err_rate_of_def float_of_int_exact float_truediv_def to_binary64_def)

lemma pow2_powi: "pow2 k = 2 powi k"
  by (simp add: pow2_def power_int_def inverse_eq_divide power_one_over)

lemma pow2_pos: "0 < pow2 k"
  by (simp add: pow2_def)

lemma pow2_add: "pow2 (a + b) = pow2 a * pow2 b"
  by (simp add: pow2_powi power_int_add)

lemma pow2_mono: "a \<le> b \<Longrightarrow> pow2 a \<le> pow2 b"
  by (simp add: pow2_powi power_int_increasing)

lemma pow2_strict_mono: "a < b \<Longrightarrow> pow2 a < pow2 b"
  by (simp add: pow2_powi power_int_strict_increasing)

lemma ilog2_bounds:
  assumes "0 < q"
  shows "pow2 (ilog2 q) \<le> q \<and> q < pow2 (ilog2 q + 1)"
proof -
  obtain a b where ab: "quotient_of q = (a, b)" by (cases "quotient_of q")
  have b: "0 < b" using ab by (rule quotient_of_denom_pos)
  have q: "q = of_int a / of_int b" using ab by (rule quotient_of_div)
  have a: "0 < a" using assms b q by (simp add: zero_less_divide_iff)
  define la where "la = bitlen a"
  define lb where "lb = bitlen b"
  have la1: "1 \<le> la" using a bitlen_eq_zero_iff[of a] bitlen_nonneg[of a] by (simp add: la_def) 
  have lb1: "1 \<le> lb" using b bitlen_eq_zero_iff[of b] bitlen_nonneg[of b] by (simp add: lb_def)
  have "a < 2 ^ nat la" using bitlen_bounds[OF a] by (simp add: la_def)
  then have "(of_int a :: rat) < of_int (2 ^ nat la)" by (simp only: of_int_less_iff)
  then have a_hi: "(of_int a :: rat) < pow2 la" using la1 by (simp add: pow2_def)
  have "2 ^ nat (la - 1) \<le> a" using bitlen_bounds[OF a] by (simp add: la_def)
  then have "(of_int (2 ^ nat (la - 1)) :: rat) \<le> of_int a" by (simp only: of_int_le_iff)
  then have a_lo: "pow2 (la - 1) \<le> (of_int a :: rat)" using la1 by (simp add: pow2_def)
  have "b < 2 ^ nat lb" using bitlen_bounds[OF b] by (simp add: lb_def)
  then have "(of_int b :: rat) < of_int (2 ^ nat lb)" by (simp only: of_int_less_iff)
  then have b_hi: "(of_int b :: rat) < pow2 lb" using lb1 by (simp add: pow2_def)
  have "2 ^ nat (lb - 1) \<le> b" using bitlen_bounds[OF b] by (simp add: lb_def)
  then have "(of_int (2 ^ nat (lb - 1)) :: rat) \<le> of_int b" by (simp only: of_int_le_iff)
  then have b_lo: "pow2 (lb - 1) \<le> (of_int b :: rat)" using lb1 by (simp add: pow2_def)
  have bpos: "(0::rat) < of_int b" using b by simp
  have apos: "(0::rat) < of_int a" using a by simp
  \<comment> \<open>upper bound: q < pow2 (la - lb + 1)\<close>
  have "pow2 (la - lb + 1) * of_int b \<ge> pow2 (la - lb + 1) * pow2 (lb - 1)"
    using b_lo pow2_pos[of "la - lb + 1"] by (simp add: mult_le_cancel_left_pos)
  moreover have "pow2 (la - lb + 1) * pow2 (lb - 1) = pow2 la"
    by (simp add: pow2_add[symmetric])
  ultimately have "of_int a < pow2 (la - lb + 1) * of_int b" using a_hi by linarith
  then have hi: "q < pow2 (la - lb + 1)" using bpos by (simp add: q pos_divide_less_eq)
  \<comment> \<open>lower bound: pow2 (la - lb - 1) \<le> q\<close>
  have "pow2 (la - lb - 1) * of_int b \<le> pow2 (la - lb - 1) * pow2 lb"
    using b_hi pow2_pos[of "la - lb - 1"] by (simp add: mult_le_cancel_left_pos)
  moreover have "pow2 (la - lb - 1) * pow2 lb = pow2 (la - 1)"
    by (simp add: pow2_add[symmetric])
  ultimately have "pow2 (la - lb - 1) * of_int b \<le> of_int a" using a_lo by linarith
  then have lo: "pow2 (la - lb - 1) \<le> q" using bpos by (simp add: q pos_le_divide_eq)
  have il: "ilog2 q = (if pow2 (la - lb) \<le> q then la - lb else la - lb - 1)"
    by (simp add: ilog2_def ab la_def lb_def)
  show ?thesis
  proof (cases "pow2 (la - lb) \<le> q")
    case True
    then show ?thesis using hi by (simp add: il)
  next
    case False
    then show ?thesis using lo by (simp add: il)
  qed
qed

lemma ilog2_unique:
  assumes "0 < q" and "pow2 k \<le> q" and "q < pow2 (k + 1)"
  shows "ilog2 q = k"
proof (rule ccontr)
  assume ne: "ilog2 q \<noteq> k"
  have b: "pow2 (ilog2 q) \<le> q" "q < pow2 (ilog2 q + 1)"
    using ilog2_bounds[OF assms(1)] by simp_all
  show False
  proof (cases "ilog2 q < k")
    case True
    then have "pow2 (ilog2 q + 1) \<le> pow2 k" by (intro pow2_mono) simp
    then show False using b(2) assms(2) by linarith
  next
    case False
    then have "k + 1 \<le> ilog2 q" using ne by simp
    then have "pow2 (k + 1) \<le> pow2 (ilog2 q)" by (rule pow2_mono)
    then show False using b(1) assms(3) by linarith
  qed
qed

lemma round_half_even_unique:
  assumes "of_int m - 1 / 2 < q" and "q < of_int m + 1 / 2"
  shows "round_half_even q = m"
proof (cases "of_int m \<le> q")
  case True
  have "\<lfloor>q\<rfloor> = m" using True assms(2) by (intro floor_unique) simp_all
  then show ?thesis using assms(2) by (simp add: round_half_even_def)
next
  case False
  have f: "\<lfloor>q\<rfloor> = m - 1" using False assms(1) by (intro floor_unique) simp_all
  have "1 / 2 < q - of_int (m - 1)" using assms(1) by simp
  then show ?thesis using f by (simp add: round_half_even_def Let_def)
qed

text \<open>Evaluating a rounding away from a tie, in the normal range.\<close>

lemma to_binary64_normal:
  assumes q: "pow2 k \<le> q" "q < pow2 (k + 1)"
    and k: "- 1022 \<le> k" "k \<le> 1022"
    and m: "of_int m - 1 / 2 < q * pow2 (52 - k)" "q * pow2 (52 - k) < of_int m + 1 / 2"
  shows "to_binary64 q = Finite (of_int m * pow2 (k - 52))"
proof -
  have pos: "0 < q" using q(1) pow2_pos[of k] by linarith
  have il: "ilog2 q = k" using pos q by (rule ilog2_unique)
  have mx: "max (k - 52) (- 1074) = k - 52" using k by simp
  have d: "q / pow2 (k - 52) = q * pow2 (52 - k)"
    using pow2_add[of "k - 52" "52 - k"] pow2_pos[of "k - 52"] 
    by (simp add: field_simps pow2_def[of 0])
  have r: "round_half_even (q / pow2 (k - 52)) = m"
    unfolding d using m by (rule round_half_even_unique)
  have rb: "round_binary64 q = of_int m * pow2 (k - 52)"
    by (simp add: round_binary64_def il mx r)
  have "of_int m < q * pow2 (52 - k) + 1 / 2" using m(1) by linarith
  also have "q * pow2 (52 - k) < pow2 (k + 1) * pow2 (52 - k)"
    using q(2) pow2_pos[of "52 - k"] by (simp add: mult_less_cancel_right_pos)
  also have "pow2 (k + 1) * pow2 (52 - k) = pow2 53" by (simp add: pow2_add[symmetric])
  finally have "(of_int m :: rat) < pow2 53 + 1 / 2" by simp
  then have "(of_int m :: rat) < of_int (2 ^ 53) + 1 / 2" by (simp add: pow2_def)
  then have "m \<le> 2 ^ 53" by linarith
  then have "(of_int m :: rat) \<le> of_int (2 ^ 53)" by (simp only: of_int_le_iff)
  then have "(of_int m :: rat) \<le> pow2 53" by (simp add: pow2_def)
  then have "of_int m * pow2 (k - 52) \<le> pow2 53 * pow2 (k - 52)"
    using pow2_pos[of "k - 52"] by (simp add: mult_le_cancel_right_pos)
  also have "pow2 53 * pow2 (k - 52) = pow2 (k + 1)" by (simp add: pow2_add[symmetric] add.commute)
  also have "pow2 (k + 1) < pow2 1024" using k by (intro pow2_strict_mono) simp
  finally have "\<not> pow2 1024 \<le> of_int m * pow2 (k - 52)" by simp
  then show ?thesis using pos by (simp add: to_binary64_def rb)
qed

lemma binary64_1_100: "to_binary64 (1 / 100) = Finite (5764607523034235 / 576460752303423488)"
  using to_binary64_normal[of "- 7" "1 / 100" 5764607523034235]
  by (simp add: pow2_def)

lemma binary64_1_199: "to_binary64 (1 / 199) = Finite (5793575400034407 / 1152921504606846976)"
  using to_binary64_normal[of "- 8" "1 / 199" 5793575400034407]
  by (simp add: pow2_def)

lemma binary64_3_100: "to_binary64 (3 / 100) = Finite (1080863910568919 / 36028797018963968)"
  using to_binary64_normal[of "- 6" "3 / 100" 8646911284551352]
  by (simp add: pow2_def)

lemma dot_name_example: "dot_name ''/data/a.tsv.gz'' = ''/data/.a.tsv.gz''"
  by (simp add: dot_name_def os_path_split_def os_path_join_def rstrip_char_def)

lemma dot_rename_events:
  "events (snd (dot_rename E f st)) = events st @ [OsRename f (dot_name f)]"
  by (simp add: dot_rename_def emit_def split: prod.splits)

lemma dot_rename_result:
  "fst (returning (dot_rename E f st)) =
     (case fst (os_rename E f (dot_name f) (world st)) of None \<Rightarrow> Inr True | Some x \<Rightarrow> Inl x)"
  by (simp add: dot_rename_def returning_def split: prod.splits option.splits)

lemma returning_snd: "snd (returning r) = snd r"
  by (simp add: returning_def split: prod.splits option.splits)

section \<open>The verdict\<close>

text \<open>
  Claim C1. For a file whose final tally has \<open>processed > 0\<close> the orchestrator computes the
  error rate \<^verbatim>\<open>float(errors) / processed\<close>: for tallies below \<open>2\<^sup>5\<^sup>3\<close> it is the binary64
  nearest to the quotient. Whatever rate \<open>r\<close> the division yields, the orchestrator logs
  acceptance when \<open>r\<close> is below \<open>NORMAL_ERR_RATE\<close> and rejection otherwise, and in both cases
  issues the rename of the file exactly once, returning \<^verbatim>\<open>True\<close> when the rename returns.
  (The division yields no rate only when a tally is too large for a float, from about
  \<open>1.8 \<times> 10\<^sup>3\<^sup>0\<^sup>8\<close> on.)
\<close>

theorem C1_verdict_by_error_rate:
  assumes "0 < processed st"
  shows "(errors st < 2 ^ 53 \<and> processed st < 2 ^ 53 \<longrightarrow>
            err_rate_of (errors st) (processed st) =
              Inr (to_binary64 (of_nat (errors st) / of_nat (processed st)))) \<and>
         (\<forall>r. err_rate_of (errors st) (processed st) = Inr r \<longrightarrow>
            events (snd (process_file_verdict E f st)) =
              events st @ [if float_lt r NORMAL_ERR_RATE then LogInfo (AcceptableRate r)
                           else LogError (HighRate r NORMAL_ERR_RATE),
                           OsRename f (dot_name f)] \<and>
            fst (process_file_verdict E f st) =
              (case fst (os_rename E f (dot_name f) (world st)) of
                 None \<Rightarrow> Inr True | Some x \<Rightarrow> Inl x))"
proof -
  have a: "err_rate_of (errors st) (processed st) =
             Inr (to_binary64 (of_nat (errors st) / of_nat (processed st)))"
    if "errors st < 2 ^ 53" and "processed st < 2 ^ 53"
    using assms that by (simp add: err_rate_of_exact)
  have b: "events (snd (process_file_verdict E f st)) =
              events st @ [if float_lt r NORMAL_ERR_RATE then LogInfo (AcceptableRate r)
                           else LogError (HighRate r NORMAL_ERR_RATE),
                           OsRename f (dot_name f)] \<and>
            fst (process_file_verdict E f st) =
              (case fst (os_rename E f (dot_name f) (world st)) of
                 None \<Rightarrow> Inr True | Some x \<Rightarrow> Inl x)"
    if r: "err_rate_of (errors st) (processed st) = Inr r" for r
  proof -
    have v: "process_file_verdict E f st = returning (dot_rename E f
               (emit [if float_lt r NORMAL_ERR_RATE then LogInfo (AcceptableRate r)
                      else LogError (HighRate r NORMAL_ERR_RATE)] st))"
      using assms by (simp add: process_file_verdict_def r)
    show ?thesis
      unfolding v by (simp add: returning_snd dot_rename_events dot_rename_result emit_def)
  qed
  show ?thesis using a b by blast
qed

theorem C1_verdict_by_error_rate_witness:
  "events (snd (process_file_verdict env0 ''/data/a.tsv.gz'' (state0\<lparr>errors := 1, processed := 199\<rparr>))) =
     [LogInfo (AcceptableRate (Finite (5793575400034407 / 1152921504606846976))),
      OsRename ''/data/a.tsv.gz'' ''/data/.a.tsv.gz''] \<and>
   fst (process_file_verdict env0 ''/data/a.tsv.gz'' (state0\<lparr>errors := 1, processed := 199\<rparr>)) = Inr True \<and>
   events (snd (process_file_verdict env0 ''/data/a.tsv.gz'' (state0\<lparr>errors := 3, processed := 100\<rparr>))) =
     [LogError (HighRate (Finite (1080863910568919 / 36028797018963968)) NORMAL_ERR_RATE),
      OsRename ''/data/a.tsv.gz'' ''/data/.a.tsv.gz''] \<and>
   fst (process_file_verdict env0 ''/data/a.tsv.gz'' (state0\<lparr>errors := 3, processed := 100\<rparr>)) = Inr True"
proof -
  let ?a = "state0\<lparr>errors := 1, processed := 199\<rparr>"
  let ?b = "state0\<lparr>errors := 3, processed := 100\<rparr>"
  have lt: "float_lt (to_binary64 (1 / 199)) NORMAL_ERR_RATE"
    by (simp add: NORMAL_ERR_RATE_def binary64_1_100 binary64_1_199 float_lt_def)
  have ge: "\<not> float_lt (to_binary64 (3 / 100)) NORMAL_ERR_RATE"
    by (simp add: NORMAL_ERR_RATE_def binary64_1_100 binary64_3_100 float_lt_def)
  have a: "0 < processed ?a" by (simp add: state0_def)
  have b: "0 < processed ?b" by (simp add: state0_def)
  note A = C1_verdict_by_error_rate[OF a, of env0 "''/data/a.tsv.gz''"]
  note B = C1_verdict_by_error_rate[OF b, of env0 "''/data/a.tsv.gz''"]
  have ra: "err_rate_of (errors ?a) (processed ?a) = Inr (to_binary64 (1 / 199))"
    using conjunct1[OF A] by (simp add: state0_def)
  have rb: "err_rate_of (errors ?b) (processed ?b) = Inr (to_binary64 (3 / 100))"
    using conjunct1[OF B] by (simp add: state0_def)
  show ?thesis
    using conjunct2[OF A, rule_format, OF ra] conjunct2[OF B, rule_format, OF rb] lt ge
    by (simp add: state0_def env0_def binary64_1_199 binary64_3_100 dot_name_example)
qed

text \<open>
  Claim C2. When the final tally has \<open>processed = 0\<close> the orchestrator does not compute the
  error rate: it issues the rename and nothing else, and returns \<open>True\<close> when the rename
  returns. The division it skips would have raised: \<open>err_rate_of\<close> has no value at a zero
  divisor.
\<close>

theorem C2_zero_processed_no_division:
  assumes "processed st = 0"
  shows "events (snd (process_file_verdict E f st)) = events st @ [OsRename f (dot_name f)] \<and>
         fst (process_file_verdict E f st) =
           (case fst (os_rename E f (dot_name f) (world st)) of
              None \<Rightarrow> Inr True | Some x \<Rightarrow> Inl x) \<and>
         (\<exists>x. err_rate_of (errors st) (processed st) = Inl x)"
proof -
  have z: "float_of_int 0 = Inr (Finite 0)"
    by (simp add: float_of_int_def to_binary64_def)
  have "\<exists>x. err_rate_of (errors st) 0 = Inl x"
    by (cases "float_of_int (int (errors st))")
       (simp_all add: err_rate_of_def z float_truediv_def)
  then show ?thesis
    using assms
    by (simp add: process_file_verdict_def returning_snd dot_rename_events dot_rename_result)
qed

theorem C2_zero_processed_no_division_witness:
  "events (snd (process_file_verdict env0 ''/data/a.tsv.gz'' (state0\<lparr>errors := 7\<rparr>))) =
     [OsRename ''/data/a.tsv.gz'' ''/data/.a.tsv.gz''] \<and>
   fst (process_file_verdict env0 ''/data/a.tsv.gz'' (state0\<lparr>errors := 7\<rparr>)) = Inr True \<and>
   (\<exists>x. err_rate_of 7 0 = Inl x)"
proof -
  have z: "processed (state0\<lparr>errors := 7\<rparr>) = 0"
    by (simp add: state0_def)
  show ?thesis
    using C2_zero_processed_no_division[OF z, of env0 "''/data/a.tsv.gz''"]
    by (simp add: state0_def env0_def dot_name_example)
qed

section \<open>Lines that yield no record, and lines that raise\<close>

lemma length_five:
  "length xs = 5 \<Longrightarrow> \<exists>a b c d e. xs = [a, b, c, d, e]"
  by (auto simp: length_Suc_conv eval_nat_numeral)

lemma parse_too_few:
  assumes "bytes_decode raw = Inr s" and "length (split_on 0x09 (str_strip s)) < 5"
  shows "parse_appsinstalled I raw = (Inr None, [])"
  using assms by (simp add: parse_appsinstalled_def)

lemma parse_empty_id:
  assumes "bytes_decode raw = Inr s" and "split_on 0x09 (str_strip s) = [dt, di, la, lo, ra]"
    and "dt = [] \<or> di = []"
  shows "parse_appsinstalled I raw = (Inr None, [])"
  using assms by (auto simp add: parse_appsinstalled_def)

lemma parse_too_many:
  assumes "bytes_decode raw = Inr s" and "5 < length (split_on 0x09 (str_strip s))"
  shows "parse_appsinstalled I raw = (Inl ValueError, [])"
proof -
  have "(case split_on 0x09 (str_strip s) of
           [dt, di, lat_s, lon_s, raw_apps] \<Rightarrow> f dt di lat_s lon_s raw_apps
         | _ \<Rightarrow> g) = g" for f and g :: "(exn + appsinstalled option) \<times> event list"
    using assms(2) by (auto split: list.splits)
  then show ?thesis using assms by (simp add: parse_appsinstalled_def Let_def)
qed

lemma parse_undecodable:
  assumes "bytes_decode raw = Inl x"
  shows "parse_appsinstalled I raw = (Inl x, [])"
  using assms by (simp add: parse_appsinstalled_def)

lemma handle_line_no_record:
  assumes "parse_appsinstalled (python E) raw = (Inr None, [])"
  shows "handle_line E opts raw st =
           (None, st\<lparr>errors := errors st + 1, events := events st @ [TaskDone]\<rparr>)"
  using assms by (simp add: handle_line_def emit_def)

lemma handle_line_raises:
  assumes "parse_appsinstalled (python E) raw = (Inl x, [])"
  shows "handle_line E opts raw st = (Some x, st)"
  using assms by (simp add: handle_line_def emit_def)

text \<open>
  Claim C5. A decodable line that splits on tab into fewer than five fields, or into five
  fields of which the device type or the device id is empty, makes \<open>parse_appsinstalled\<close>
  return \<^verbatim>\<open>None\<close> without raising; the worker that handles it adds exactly one to the
  error tally, leaves the processed tally alone, and goes on with the rest of the queue.
\<close>

theorem C5_short_or_empty_id_counts_one_error:
  assumes "bytes_decode raw = Inr s"
    and "parts = split_on 0x09 (str_strip s)"
    and "length parts < 5 \<or> (length parts = 5 \<and> (parts ! 0 = [] \<or> parts ! 1 = []))"
  shows "parse_appsinstalled (python E) raw = (Inr None, []) \<and>
         handle_line E opts raw st =
           (None, st\<lparr>errors := errors st + 1, events := events st @ [TaskDone]\<rparr>) \<and>
         line_worker E opts (Some raw # q) st =
           line_worker E opts q (st\<lparr>errors := errors st + 1, events := events st @ [TaskDone]\<rparr>)"
proof -
  have p: "parse_appsinstalled (python E) raw = (Inr None, [])"
  proof (cases "length parts < 5")
    case True
    then show ?thesis using assms(1,2) by (simp add: parse_too_few)
  next
    case False
    then have l: "length parts = 5" and e: "parts ! 0 = [] \<or> parts ! 1 = []"
      using assms(3) by simp_all
    obtain a b c d e' where ps: "parts = [a, b, c, d, e']"
      using length_five[OF l] by blast
    have "a = [] \<or> b = []" using e by (simp add: ps)
    then show ?thesis
      using assms(1) ps[unfolded assms(2)] by (intro parse_empty_id) simp_all
  qed
  have h: "handle_line E opts raw st =
           (None, st\<lparr>errors := errors st + 1, events := events st @ [TaskDone]\<rparr>)"
    using p by (rule handle_line_no_record)
  show ?thesis using p h by simp
qed

lemma decode_abc: "bytes_decode (tsv [''a'', ''b'', ''c'']) = Inr (lit ''a'' @ [9] @ lit ''b'' @ [9] @ lit ''c'')"
  by (simp add: bytes_decode_def lit_def)

lemma split_abc: "split_on 0x09 (str_strip (lit ''a'' @ [9] @ lit ''b'' @ [9] @ lit ''c'')) = [lit ''a'', lit ''b'', lit ''c'']"
  by (simp add: str_strip_def strip_by_def py_isspace_def lit_def)

theorem C5_short_or_empty_id_counts_one_error_witness:
  "parse_appsinstalled (python env0) (tsv [''a'', ''b'', ''c'']) = (Inr None, []) \<and>
   line_worker env0 opts0 [Some (tsv [''a'', ''b'', ''c'']), None] state0 =
     (Stopped, [], state0\<lparr>errors := 1, events := [TaskDone, TaskDone]\<rparr>)"
proof -
  have 3: "length [lit ''a'', lit ''b'', lit ''c''] < 5 \<or> (length [lit ''a'', lit ''b'', lit ''c''] = 5 \<and>
      ([lit ''a'', lit ''b'', lit ''c''] ! 0 = [] \<or> [lit ''a'', lit ''b'', lit ''c''] ! 1 = []))"
    by simp
  show ?thesis
    using C5_short_or_empty_id_counts_one_error[OF decode_abc split_abc[symmetric] 3, of env0 opts0 state0 "[None]"]
    by (simp add: state0_def emit_def)
qed



lemma first_raised_append:
  "first_raised rs = None \<Longrightarrow> first_raised (rs @ Raised x # rs') = Some x"
  by (induction rs rule: first_raised.induct) simp_all

text \<open>
  Claim C10. A decodable line that splits on tab into more than five fields does not yield
  \<^verbatim>\<open>None\<close>: unpacking the fields raises \<^verbatim>\<open>ValueError\<close>, the worker's loop ends with
  that exception without touching the tallies, and the orchestrator raises it again when it
  collects the results, provided no earlier worker raised.
\<close>

theorem C10_too_many_fields_raise:
  assumes "bytes_decode raw = Inr s" and "5 < length (split_on 0x09 (str_strip s))"
  shows "parse_appsinstalled (python E) raw = (Inl ValueError, []) \<and>
         line_worker E opts (Some raw # q) st = (Raised ValueError, q, st) \<and>
         (first_raised rs = None \<longrightarrow>
            process_file_results E f (rs @ Raised ValueError # rs') st' = (Inl ValueError, st'))"
proof -
  have p: "parse_appsinstalled (python E) raw = (Inl ValueError, [])"
    using assms by (rule parse_too_many)
  have h: "handle_line E opts raw st = (Some ValueError, st)"
    using p by (rule handle_line_raises)
  show ?thesis using p h by (simp add: process_file_results_def first_raised_append)
qed

lemma decode_six: "bytes_decode (tsv [''a'', ''b'', ''c'', ''d'', ''e'', ''f'']) =
    Inr (lit ''a'' @ [9] @ lit ''b'' @ [9] @ lit ''c'' @ [9] @ lit ''d'' @ [9] @ lit ''e'' @ [9] @ lit ''f'')"
  by (simp add: bytes_decode_def lit_def)

lemma split_six: "split_on 0x09 (str_strip (lit ''a'' @ [9] @ lit ''b'' @ [9] @ lit ''c'' @ [9] @ lit ''d'' @ [9] @ lit ''e'' @ [9] @ lit ''f'')) =
    [lit ''a'', lit ''b'', lit ''c'', lit ''d'', lit ''e'', lit ''f'']"
  by (simp add: str_strip_def strip_by_def py_isspace_def lit_def)

theorem C10_too_many_fields_raise_witness:
  "parse_appsinstalled (python env0) (tsv [''a'', ''b'', ''c'', ''d'', ''e'', ''f'']) = (Inl ValueError, []) \<and>
   line_worker env0 opts0 [Some (tsv [''a'', ''b'', ''c'', ''d'', ''e'', ''f'']), None] state0 =
     (Raised ValueError, [None], state0) \<and>
   process_file_results env0 ''/data/a.tsv.gz'' [Stopped, Raised ValueError] state0 = (Inl ValueError, state0)"
proof -
  have l: "5 < length (split_on 0x09 (str_strip (lit ''a'' @ [9] @ lit ''b'' @ [9] @ lit ''c'' @ [9] @ lit ''d'' @ [9] @ lit ''e'' @ [9] @ lit ''f'')))"
    unfolding split_six by simp
  show ?thesis
    using C10_too_many_fields_raise[OF decode_six l, of env0 opts0 "[None]" state0 "[Stopped]" "''/data/a.tsv.gz''" "[]" state0]
    by simp
qed

section \<open>Numbers in the example lines\<close>

lemma binary64_one: "to_binary64 1 = Finite 1"
  using to_binary64_of_nat[of 1] by simp

lemma binary64_two: "to_binary64 2 = Finite 2"
  using to_binary64_of_nat[of 2] by simp

lemma binary64_55_55: "to_binary64 (1111 / 20) = Finite (3908983739069235 / 70368744177664)"
  using to_binary64_normal[of 5 "1111 / 20" 7817967478138470]
  by (simp add: pow2_def)

lemma binary64_42_42: "to_binary64 (2121 / 50) = Finite (2985042128016507 / 70368744177664)"
  using to_binary64_normal[of 5 "2121 / 50" 5970084256033014]
  by (simp add: pow2_def)

lemmas text_defs = bytes_decode_def lit_def str_strip_def strip_by_def py_isspace_def
  ascii_ws_def ascii_digit_def is_cont_def

lemmas number_defs = py_int_def py_float_def py_isdigit_def parse_float_literal_def
  parse_decimal_def parse_exponent_def digits_value_def pow10_def lower_def

lemma float_1_0: "py_float I (lit ''1.0'') = Inr (Finite 1)"
  by (simp add: text_defs number_defs binary64_one)

lemma float_2_0: "py_float I (lit ''2.0'') = Inr (Finite 2)"
  by (simp add: text_defs number_defs binary64_two)

lemma float_55_55: "py_float I (lit ''55.55'') = Inr (Finite (3908983739069235 / 70368744177664))"
  by (simp add: text_defs number_defs binary64_55_55)

lemma float_42_42: "py_float I (lit ''42.42'') = Inr (Finite (2985042128016507 / 70368744177664))"
  by (simp add: text_defs number_defs binary64_42_42)

lemma int_each_1_2: "int_each I [lit ''1'', lit ''2''] = Inr [1, 2]"
  by (simp add: text_defs number_defs)

lemma int_each_mixed: "int_each I [lit ''10'', lit ''abc'', lit ''30''] = Inl ValueError"
  by (simp add: text_defs number_defs)

lemma int_each_10_30: "int_each I [lit ''10'', lit ''30''] = Inr [10, 30]"
  by (simp add: text_defs number_defs)

lemma isdigit_filter: "filter (py_isdigit I) [lit ''10'', lit ''abc'', lit ''30''] = [lit ''10'', lit ''30'']"
  by (simp add: text_defs number_defs)

lemma parse_five_fields:
  assumes "bytes_decode raw = Inr s"
    and "split_on 0x09 (str_strip s) = [dt, di, lat_s, lon_s, raw_apps]"
    and "dt \<noteq> []" and "di \<noteq> []"
  shows "parse_appsinstalled I raw =
     (case int_each I (split_on 0x2C raw_apps) of
        Inr as \<Rightarrow> parse_geo I (str_strip s) dt di lat_s lon_s as []
      | Inl x \<Rightarrow>
          if is_ValueError x then
            (case int_each I (filter (py_isdigit I) (split_on 0x2C raw_apps)) of
               Inl y \<Rightarrow> (Inl y, [])
             | Inr as \<Rightarrow>
                 parse_geo I (str_strip s) dt di lat_s lon_s as
                   [LogInfo (NotAllDigits (str_strip s))])
          else (Inl x, []))"
  using assms by (simp add: parse_appsinstalled_def Let_def)

lemma parse_unknown:
  "parse_appsinstalled I (tsv [''unknown'', ''X1'', ''1.0'', ''2.0'', ''1,2'']) =
     (Inr (Some \<lparr>dev_type = lit ''unknown'', dev_id = lit ''X1'', lat = Finite 1, lon = Finite 2,
                  apps = [1, 2]\<rparr>), [])"
proof -
  have d: "bytes_decode (tsv [''unknown'', ''X1'', ''1.0'', ''2.0'', ''1,2'']) =
      Inr (lit ''unknown'' @ [9] @ lit ''X1'' @ [9] @ lit ''1.0'' @ [9] @ lit ''2.0'' @ [9] @ lit ''1,2'')"
    by (simp add: bytes_decode_def lit_def)
  have s: "split_on 0x09 (str_strip (lit ''unknown'' @ [9] @ lit ''X1'' @ [9] @ lit ''1.0'' @ [9] @ lit ''2.0'' @ [9] @ lit ''1,2'')) =
      [lit ''unknown'', lit ''X1'', lit ''1.0'', lit ''2.0'', lit ''1,2'']"
    by (simp add: str_strip_def strip_by_def py_isspace_def lit_def)
  have c: "split_on 0x2C (lit ''1,2'') = [lit ''1'', lit ''2'']"
    by (simp add: lit_def)
  have n: "lit ''unknown'' \<noteq> []" "lit ''X1'' \<noteq> []" by (simp_all add: lit_def)
  show ?thesis
    unfolding parse_five_fields[OF d s n] c int_each_1_2
    by (simp add: parse_geo_def float_1_0 float_2_0)
qed

section \<open>Routing\<close>

lemma device_memc_unknown:
  "dt \<notin> {lit ''idfa'', lit ''gaid'', lit ''adid'', lit ''dvid''} \<Longrightarrow> device_memc opts dt = None"
  by (simp add: device_memc_def)

lemma parse_geo_logs: "parse_geo I line dt di la lo as evs = (r, evs') \<Longrightarrow>
    filter store_event evs = [] \<Longrightarrow> filter store_event evs' = []"
  by (auto simp: parse_geo_def split: sum.splits if_splits)

lemma parse_logs_only:
  assumes "parse_appsinstalled I raw = (r, evs)"
  shows "filter store_event evs = []"
proof (cases "bytes_decode raw")
  case (Inl x)
  then show ?thesis using assms by (simp add: parse_appsinstalled_def)
next
  case (Inr s)
  let ?parts = "split_on 0x09 (str_strip s)"
  consider "length ?parts < 5" | "5 < length ?parts" | "length ?parts = 5" by linarith
  then show ?thesis
  proof cases
    case 1
    then show ?thesis using assms parse_too_few[OF Inr 1, of I] by simp
  next
    case 2
    then show ?thesis using assms parse_too_many[OF Inr 2, of I] by simp
  next
    case 3
    obtain dt di la lo ra where ps: "?parts = [dt, di, la, lo, ra]"
      using length_five[OF 3] by blast
    show ?thesis
    proof (cases "dt = [] \<or> di = []")
      case True
      then show ?thesis using assms parse_empty_id[OF Inr ps True, of I] by simp
    next
      case False
      then have n: "dt \<noteq> []" "di \<noteq> []" by simp_all
      show ?thesis
        using assms unfolding parse_five_fields[OF Inr ps n]
        by (auto split: sum.splits if_splits dest!: parse_geo_logs)
    qed
  qed
qed

lemma handle_line_unrouted:
  assumes "parse_appsinstalled (python E) raw = (Inr (Some a), evs)"
    and "device_memc opts (dev_type a) = None"
  shows "handle_line E opts raw st =
           (None, st\<lparr>errors := errors st + 1,
                      events := events st @ evs @ [LogError (UnknownDeviceType (dev_type a)), TaskDone]\<rparr>)"
  using assms by (simp add: handle_line_def emit_def)

text \<open>
  Claim C6. For a record whose device type is not a key of the routing table the worker adds
  exactly one to the error tally and logs the unknown device type; it constructs no client
  and issues no \<^verbatim>\<open>set\<close> (the pool and the world are as before, and no event of the turn
  touches the store), and it goes on with the rest of the queue.
\<close>

theorem C6_unknown_device_type_no_write:
  assumes "parse_appsinstalled (python E) raw = (Inr (Some a), evs)"
    and "dev_type a \<notin> {lit ''idfa'', lit ''gaid'', lit ''adid'', lit ''dvid''}"
  shows "handle_line E opts raw st =
           (None, st\<lparr>errors := errors st + 1,
                      events := events st @ evs @ [LogError (UnknownDeviceType (dev_type a)), TaskDone]\<rparr>) \<and>
         filter store_event (evs @ [LogError (UnknownDeviceType (dev_type a)), TaskDone]) = [] \<and>
         line_worker E opts (Some raw # q) st =
           line_worker E opts q
             (st\<lparr>errors := errors st + 1,
                 events := events st @ evs @ [LogError (UnknownDeviceType (dev_type a)), TaskDone]\<rparr>)"
proof -
  have h: "handle_line E opts raw st =
           (None, st\<lparr>errors := errors st + 1,
                      events := events st @ evs @ [LogError (UnknownDeviceType (dev_type a)), TaskDone]\<rparr>)"
    using assms(1) device_memc_unknown[OF assms(2)] by (rule handle_line_unrouted)
  have "filter store_event evs = []" using assms(1) by (rule parse_logs_only)
  then show ?thesis using h by simp
qed

theorem C6_unknown_device_type_no_write_witness:
  "line_worker env0 opts0 [Some (tsv [''unknown'', ''X1'', ''1.0'', ''2.0'', ''1,2'']), None] state0 =
     (Stopped, [],
      state0\<lparr>errors := 1, events := [LogError (UnknownDeviceType (lit ''unknown'')), TaskDone, TaskDone]\<rparr>)"
proof -
  let ?a = "\<lparr>dev_type = lit ''unknown'', dev_id = lit ''X1'', lat = Finite 1, lon = Finite 2,
                  apps = [1, 2]\<rparr>"
  have u: "dev_type ?a \<notin> {lit ''idfa'', lit ''gaid'', lit ''adid'', lit ''dvid''}"
    by (simp add: lit_def)
  show ?thesis
    using C6_unknown_device_type_no_write[OF parse_unknown u, of env0 opts0 state0 "[None]"]
    by (simp add: state0_def emit_def del: tsv.simps)
qed

section \<open>Lines that are not UTF-8\<close>

text \<open>
  Claim C3 says that a line that is not valid UTF-8 is counted as an error and skipped. The
  program does otherwise: the decoding raises \<^verbatim>\<open>UnicodeDecodeError\<close> outside any handler,
  so the worker's loop ends with it, no tally changes, and the orchestrator raises it again
  when it collects the results.
\<close>

theorem C3_undecodable_line_ends_worker:
  assumes "utf8_decode (map of_char raw) = None"
  shows "parse_appsinstalled (python E) raw = (Inl UnicodeDecodeError, []) \<and>
         line_worker E opts (Some raw # q) st = (Raised UnicodeDecodeError, q, st) \<and>
         (first_raised rs = None \<longrightarrow>
            process_file_results E f (rs @ Raised UnicodeDecodeError # rs') st' =
              (Inl UnicodeDecodeError, st'))"
proof -
  have d: "bytes_decode raw = Inl UnicodeDecodeError" using assms by (simp add: bytes_decode_def)
  have p: "parse_appsinstalled (python E) raw = (Inl UnicodeDecodeError, [])"
    using d by (rule parse_undecodable)
  have h: "handle_line E opts raw st = (Some UnicodeDecodeError, st)"
    using p by (rule handle_line_raises)
  show ?thesis using p h by (simp add: process_file_results_def first_raised_append)
qed

theorem C3_undecodable_line_ends_worker_witness:
  "parse_appsinstalled (python env0) [CHR 0xFF, CHR 0xFE] = (Inl UnicodeDecodeError, []) \<and>
   line_worker env0 opts0 [Some [CHR 0xFF, CHR 0xFE], None] state0 =
     (Raised UnicodeDecodeError, [None], state0) \<and>
   process_file_results env0 ''/data/a.tsv.gz'' [Raised UnicodeDecodeError] state0 =
     (Inl UnicodeDecodeError, state0)"
proof -
  have n: "utf8_decode (map of_char [CHR 0xFF, CHR 0xFE]) = None" by simp
  show ?thesis
    using C3_undecodable_line_ends_worker[OF n, of env0 opts0 "[None]" state0 "[]" "''/data/a.tsv.gz''" "[]" state0]
    by simp
qed

section \<open>Every handled line is counted once\<close>

lemma get_client_tallies:
  "get_client E addr st = (r, st') \<Longrightarrow> processed st' = processed st \<and> errors st' = errors st"
  by (auto simp: get_client_def emit_def Let_def split: if_splits prod.splits option.splits)

lemma write_failed_tallies:
  "write_failed addr x st = (r, st') \<Longrightarrow> processed st' = processed st \<and> errors st' = errors st"
  by (auto simp: write_failed_def emit_def split: if_splits)

lemma insert_tallies:
  assumes "insert_appsinstalled E addr a d st = (r, st')"
  shows "processed st' = processed st \<and> errors st' = errors st"
proof (cases "serialize E (user_apps_of a)")
  case (Inl x)
  then show ?thesis using assms by (simp add: insert_appsinstalled_def)
next
  case (Inr packed)
  show ?thesis
  proof (cases d)
    case True
    then show ?thesis using assms Inr by (auto simp: insert_appsinstalled_def emit_def)
  next
    case False
    obtain c st1 where g: "get_client E addr st = (c, st1)" by (cases "get_client E addr st")
    have t1: "processed st1 = processed st \<and> errors st1 = errors st"
      using g by (rule get_client_tallies)
    show ?thesis
    proof (cases c)
      case (Some x)
      then have "write_failed addr x st1 = (r, st')"
        using assms Inr False g by (simp add: insert_appsinstalled_def)
      then show ?thesis using t1 write_failed_tallies by metis
    next
      case None
      obtain s w where cs: "client_set E addr (store_key a) packed (world st1) = (s, w)"
        by (cases "client_set E addr (store_key a) packed (world st1)")
      let ?st2 = "(emit [MemcSet addr (store_key a) packed] st1)\<lparr>world := w\<rparr>"
      have t2: "processed ?st2 = processed st \<and> errors ?st2 = errors st"
        using t1 by (simp add: emit_def)
      show ?thesis
      proof (cases s)
        case (Some x)
        then have "write_failed addr x ?st2 = (r, st')"
          using assms Inr False g None cs by (simp add: insert_appsinstalled_def)
        then show ?thesis using t2 write_failed_tallies by metis
      next
        case None': None
        have "st' = ?st2"
          using assms Inr False g None cs None' by (simp add: insert_appsinstalled_def)
        then show ?thesis using t2 by simp
      qed
    qed
  qed
qed

lemma handle_line_counts:
  assumes "handle_line E opts raw st = (r, st')"
  shows "(case r of
            None \<Rightarrow> processed st' + errors st' = Suc (processed st + errors st)
          | Some x \<Rightarrow> processed st' = processed st \<and> errors st' = errors st)"
proof -
  obtain p evs where pe: "parse_appsinstalled (python E) raw = (p, evs)"
    by (cases "parse_appsinstalled (python E) raw")
  show ?thesis
  proof (cases p)
    case (Inl x)
    then show ?thesis using assms pe by (auto simp: handle_line_def emit_def)
  next
    case (Inr o1)
    show ?thesis
    proof (cases o1)
      case None
      then show ?thesis using assms pe Inr by (auto simp: handle_line_def emit_def)
    next
      case (Some a)
      show ?thesis
      proof (cases "device_memc opts (dev_type a)")
        case None
        then show ?thesis using assms pe Inr Some by (auto simp: handle_line_def emit_def)
      next
        case (Some addr)
        note ad = this
        show ?thesis
        proof (cases "addr = []")
          case True
          then show ?thesis
            using assms pe Inr \<open>o1 = Some a\<close> ad by (auto simp: handle_line_def emit_def)
        next
          case False
          obtain res st1 where i: "insert_appsinstalled E addr a (dry opts) (emit evs st) = (res, st1)"
            by (cases "insert_appsinstalled E addr a (dry opts) (emit evs st)")
          have t: "processed st1 = processed st \<and> errors st1 = errors st"
            using insert_tallies[OF i] by (simp add: emit_def)
          show ?thesis
            using assms pe Inr \<open>o1 = Some a\<close> ad False i t
            by (auto simp: handle_line_def emit_def split: sum.splits)
        qed
      qed
    qed
  qed
qed

text \<open>
  A run of the loop: each line taken from the queue adds one to exactly one of the two
  tallies, but for the line whose handling raised, which is counted nowhere.
\<close>

theorem line_worker_tally:
  "line_worker E opts q st = (w, rest, st') \<Longrightarrow>
     processed st' + errors st' + lines_in rest + (case w of Raised x \<Rightarrow> 1 | Stopped \<Rightarrow> 0) =
     processed st + errors st + lines_in q"
proof (induction E opts q st arbitrary: w rest st' rule: line_worker.induct)
  case (1 E opts st)
  then show ?case by (simp add: lines_in_def)
next
  case (2 E opts q st)
  then show ?case by (auto simp: lines_in_def emit_def)
next
  case (3 E opts line q st)
  obtain r st1 where h: "handle_line E opts line st = (r, st1)"
    by (cases "handle_line E opts line st")
  show ?case
  proof (cases r)
    case None
    have c: "processed st1 + errors st1 = Suc (processed st + errors st)"
      using handle_line_counts[OF h] None by simp
    have "line_worker E opts q st1 = (w, rest, st')" using "3.prems" h None by simp
    from "3.IH"[OF h[symmetric] None this] c show ?thesis by (simp add: lines_in_def)
  next
    case (Some x)
    have c: "processed st1 = processed st \<and> errors st1 = errors st"
      using handle_line_counts[OF h] Some by simp
    have "w = Raised x" "rest = q" "st' = st1" using "3.prems" h Some by simp_all
    then show ?thesis using c by (simp add: lines_in_def)
  qed
qed

lemma run_short_line:
  "line_worker env0 opts0 [Some (tsv [''a'', ''b'', ''c'']), None] state0 =
     (Stopped, [], state0\<lparr>errors := 1, events := [TaskDone, TaskDone]\<rparr>)"
proof -
  have l: "length (split_on 0x09 (str_strip (lit ''a'' @ [9] @ lit ''b'' @ [9] @ lit ''c''))) < 5"
    unfolding split_abc by simp
  have p: "parse_appsinstalled (python env0) (tsv [''a'', ''b'', ''c'']) = (Inr None, [])"
    using decode_abc l by (rule parse_too_few)
  show ?thesis
    by (simp add: handle_line_no_record[OF p] state0_def emit_def del: tsv.simps)
qed

theorem line_worker_tally_witness:
  "processed (state0\<lparr>errors := 1, events := [TaskDone, TaskDone]\<rparr>) +
   errors (state0\<lparr>errors := 1, events := [TaskDone, TaskDone]\<rparr>) + lines_in [] +
   (case Stopped of Raised x \<Rightarrow> 1 | Stopped \<Rightarrow> 0) =
   processed state0 + errors state0 + lines_in [Some (tsv [''a'', ''b'', ''c'']), None]"
  by (rule line_worker_tally[OF run_short_line])

section \<open>A write that raises\<close>

lemma handle_line_routed:
  assumes "parse_appsinstalled (python E) raw = (Inr (Some a), evs)"
    and "device_memc opts (dev_type a) = Some addr" and "addr \<noteq> []"
    and "insert_appsinstalled E addr a (dry opts) (emit evs st) = (Inr ok, st1)"
  shows "handle_line E opts raw st =
           (None, emit [TaskDone] (if ok then st1\<lparr>processed := processed st1 + 1\<rparr>
                                    else st1\<lparr>errors := errors st1 + 1\<rparr>))"
  using assms by (simp add: handle_line_def)

lemma insert_write_raises:
  assumes "serialize E (user_apps_of a) = Inr packed"
    and "get_client E addr st = (None, st1)"
    and "client_set E addr (store_key a) packed (world st1) = (Some x, w)"
    and "is_Exception x"
  shows "insert_appsinstalled E addr a False st =
           (Inr False, st1\<lparr>world := w,
              events := events st1 @ [MemcSet addr (store_key a) packed,
                                      LogException (CannotWrite addr x)]\<rparr>)"
  using assms by (simp add: insert_appsinstalled_def write_failed_def emit_def)

text \<open>
  Claim C7. For a routed record outside dry-run mode, an exception (a subclass of
  \<^verbatim>\<open>Exception\<close>) that \<^verbatim>\<open>memc.set\<close> raises is caught inside \<open>insert_appsinstalled\<close>, logged
  and turned into the result \<^verbatim>\<open>False\<close>; the worker adds one to the error tally and goes
  on. The turn holds the one \<^verbatim>\<open>set\<close> and no second: the write is not retried.
\<close>

theorem C7_store_exception_counted_not_retried:
  assumes "parse_appsinstalled (python E) raw = (Inr (Some a), evs)"
    and "device_memc opts (dev_type a) = Some addr" and "addr \<noteq> []"
    and "\<not> dry opts"
    and "serialize E (user_apps_of a) = Inr packed"
    and "get_client E addr (emit evs st) = (None, st1)"
    and "client_set E addr (store_key a) packed (world st1) = (Some x, w)"
    and "is_Exception x"
  shows "insert_appsinstalled E addr a (dry opts) (emit evs st) =
           (Inr False, st1\<lparr>world := w,
              events := events st1 @ [MemcSet addr (store_key a) packed,
                                      LogException (CannotWrite addr x)]\<rparr>) \<and>
         handle_line E opts raw st =
           (None, st1\<lparr>world := w, errors := errors st + 1,
              events := events st1 @ [MemcSet addr (store_key a) packed,
                                      LogException (CannotWrite addr x), TaskDone]\<rparr>) \<and>
         processed st1 = processed st \<and>
         line_worker E opts (Some raw # q) st =
           line_worker E opts q
             (st1\<lparr>world := w, errors := errors st + 1,
                  events := events st1 @ [MemcSet addr (store_key a) packed,
                                          LogException (CannotWrite addr x), TaskDone]\<rparr>)"
proof -
  have t: "processed st1 = processed st \<and> errors st1 = errors st"
    using get_client_tallies[OF assms(6)] by (simp add: emit_def)
  have i: "insert_appsinstalled E addr a (dry opts) (emit evs st) =
           (Inr False, st1\<lparr>world := w,
              events := events st1 @ [MemcSet addr (store_key a) packed,
                                      LogException (CannotWrite addr x)]\<rparr>)"
    using insert_write_raises[OF assms(5,6,7,8)] assms(4) by simp
  have h: "handle_line E opts raw st =
           (None, st1\<lparr>world := w, errors := errors st + 1,
              events := events st1 @ [MemcSet addr (store_key a) packed,
                                      LogException (CannotWrite addr x), TaskDone]\<rparr>)"
    unfolding handle_line_routed[OF assms(1,2,3) i] using t by (simp add: emit_def)
  show ?thesis using i h t by simp
qed

lemma parse_gaid:
  "parse_appsinstalled I (tsv [''gaid'', ''X2'', ''1.0'', ''2.0'', ''1,2'']) =
     (Inr (Some \<lparr>dev_type = lit ''gaid'', dev_id = lit ''X2'', lat = Finite 1, lon = Finite 2,
                  apps = [1, 2]\<rparr>), [])"
proof -
  have d: "bytes_decode (tsv [''gaid'', ''X2'', ''1.0'', ''2.0'', ''1,2'']) =
      Inr (lit ''gaid'' @ [9] @ lit ''X2'' @ [9] @ lit ''1.0'' @ [9] @ lit ''2.0'' @ [9] @ lit ''1,2'')"
    by (simp add: bytes_decode_def lit_def)
  have s: "split_on 0x09 (str_strip (lit ''gaid'' @ [9] @ lit ''X2'' @ [9] @ lit ''1.0'' @ [9] @ lit ''2.0'' @ [9] @ lit ''1,2'')) =
      [lit ''gaid'', lit ''X2'', lit ''1.0'', lit ''2.0'', lit ''1,2'']"
    by (simp add: str_strip_def strip_by_def py_isspace_def lit_def)
  have c: "split_on 0x2C (lit ''1,2'') = [lit ''1'', lit ''2'']"
    by (simp add: lit_def)
  have n: "lit ''gaid'' \<noteq> []" "lit ''X2'' \<noteq> []" by (simp_all add: lit_def)
  show ?thesis
    unfolding parse_five_fields[OF d s n] c int_each_1_2
    by (simp add: parse_geo_def float_1_0 float_2_0)
qed

theorem C7_store_exception_counted_not_retried_witness:
  "line_worker (env_set_raises (Foreign ''socket.timeout'')) opts0
     [Some (tsv [''gaid'', ''X2'', ''1.0'', ''2.0'', ''1,2'']), None] state0 =
   (Stopped, [],
    state0\<lparr>errors := 1, instances := [''127.0.0.1:33014''],
      events := [ClientNew ''127.0.0.1:33014'',
                 MemcSet ''127.0.0.1:33014'' (lit ''gaid:X2'') [],
                 LogException (CannotWrite ''127.0.0.1:33014'' (Foreign ''socket.timeout'')),
                 TaskDone, TaskDone]\<rparr>)"
proof -
  let ?E = "env_set_raises (Foreign ''socket.timeout'')"
  let ?a = "\<lparr>dev_type = lit ''gaid'', dev_id = lit ''X2'', lat = Finite 1, lon = Finite 2,
                  apps = [1, 2]\<rparr>"
  let ?st1 = "state0\<lparr>instances := [''127.0.0.1:33014''], events := [ClientNew ''127.0.0.1:33014'']\<rparr>"
  have 1: "parse_appsinstalled (python ?E) (tsv [''gaid'', ''X2'', ''1.0'', ''2.0'', ''1,2'']) = (Inr (Some ?a), [])"
    by (rule parse_gaid)
  have 2: "device_memc opts0 (dev_type ?a) = Some ''127.0.0.1:33014''"
    by (simp add: device_memc_def opts0_def lit_def)
  have 3: "''127.0.0.1:33014'' \<noteq> []" by simp
  have 4: "\<not> dry opts0" by (simp add: opts0_def)
  have 5: "serialize ?E (user_apps_of ?a) = Inr []"
    by (simp add: env_set_raises_def env0_def)
  have 6: "get_client ?E ''127.0.0.1:33014'' (emit [] state0) = (None, ?st1)"
    by (simp add: get_client_def env_set_raises_def env0_def emit_def state0_def)
  have 7: "client_set ?E ''127.0.0.1:33014'' (store_key ?a) [] (world ?st1) = (Some (Foreign ''socket.timeout''), ())"
    by (simp add: env_set_raises_def env0_def)
  have 8: "is_Exception (Foreign ''socket.timeout'')" by simp
  show ?thesis
    using C7_store_exception_counted_not_retried[OF 1 2 3 4 5 6 7 8, of "[None]"]
    by (simp add: state0_def emit_def store_key_def lit_def del: tsv.simps)
qed

section \<open>A mixed apps field\<close>

lemma py_int_error: "py_int I s = Inl x \<Longrightarrow> x = ValueError"
  by (auto simp: py_int_def Let_def split: option.splits prod.splits if_splits)

lemma int_each_rejects:
  "(\<exists>x. int_each I xs = Inl x) \<longleftrightarrow> (\<exists>a \<in> set xs. \<exists>x. py_int I (str_strip a) = Inl x)"
  by (induction xs) (auto split: sum.splits)

lemma int_each_error: "int_each I xs = Inl x \<Longrightarrow> x = ValueError"
  by (induction xs arbitrary: x) (auto split: sum.splits dest: py_int_error)

lemma int_each_accepts:
  "int_each I xs = Inr ns \<longleftrightarrow> list_all2 (\<lambda>a n. py_int I (str_strip a) = Inr n) xs ns"
proof (induction xs arbitrary: ns)
  case Nil
  then show ?case by auto
next
  case (Cons a xs)
  show ?case
  proof (cases ns)
    case Nil
    then show ?thesis by (auto split: sum.splits)
  next
    case (Cons n ns')
    have "int_each I (a # xs) = Inr (n # ns') \<longleftrightarrow>
            py_int I (str_strip a) = Inr n \<and> int_each I xs = Inr ns'"
      by (auto split: sum.splits)
    then show ?thesis using Cons.IH[of ns'] Cons by simp
  qed
qed

lemma parse_geo_ok:
  "py_float I lat_s = Inr la \<Longrightarrow> py_float I lon_s = Inr lo \<Longrightarrow>
   parse_geo I line dt di lat_s lon_s as evs =
     (Inr (Some \<lparr>dev_type = dt, dev_id = di, lat = la, lon = lo, apps = as\<rparr>), evs)"
  by (simp add: parse_geo_def)

lemma py_float_error: "py_float I s = Inl x \<Longrightarrow> x = ValueError"
  by (auto simp: py_float_def split: option.splits)

lemma parse_geo_bad_lat:
  "py_float I lat_s = Inl x \<Longrightarrow>
   parse_geo I line dt di lat_s lon_s as evs = (Inr None, evs @ [LogInfo (InvalidGeo line)])"
  by (auto simp: parse_geo_def dest: py_float_error)

text \<open>
  Claim C4 says that a line of five fields whose apps field mixes numeric and other elements
  is parsed with the numeric ids kept, and counted as processed. The program does otherwise
  when the apps field holds an element for which \<^verbatim>\<open>isdigit\<close> holds and which \<^verbatim>\<open>int\<close> rejects
  (a digit that is no decimal, such as the superscript two, or more digits than the
  interpreter's limit): the comprehension of the fallback raises \<^verbatim>\<open>ValueError\<close> inside the
  handler of the first, so \<open>parse_appsinstalled\<close> raises, the worker's loop ends with the
  exception, no tally changes, and the orchestrator raises it again when it collects the
  results.
\<close>

theorem C4_fallback_raises_on_digit_not_int:
  assumes "bytes_decode raw = Inr s"
    and "split_on 0x09 (str_strip s) = [dt, di, lat_s, lon_s, raw_apps]"
    and "dt \<noteq> []" and "di \<noteq> []"
    and "a \<in> set (split_on 0x2C raw_apps)"
    and "py_isdigit (python E) a"
    and "py_int (python E) (str_strip a) = Inl x"
  shows "parse_appsinstalled (python E) raw = (Inl ValueError, []) \<and>
         handle_line E opts raw st = (Some ValueError, st) \<and>
         line_worker E opts (Some raw # q) st = (Raised ValueError, q, st) \<and>
         (first_raised rs = None \<longrightarrow>
            process_file_results E f (rs @ Raised ValueError # rs') st' = (Inl ValueError, st'))"
proof -
  obtain x1 where x1: "int_each (python E) (split_on 0x2C raw_apps) = Inl x1"
    using assms(5,7) int_each_rejects[of "python E" "split_on 0x2C raw_apps"] by blast
  have v: "is_ValueError x1" using int_each_error[OF x1] by simp
  have "a \<in> set (filter (py_isdigit (python E)) (split_on 0x2C raw_apps))"
    using assms(5,6) by simp
  then obtain y where y: "int_each (python E) (filter (py_isdigit (python E)) (split_on 0x2C raw_apps)) = Inl y"
    using assms(7) int_each_rejects[of "python E" "filter (py_isdigit (python E)) (split_on 0x2C raw_apps)"]
    by blast
  have y': "y = ValueError" using int_each_error[OF y] .
  have p: "parse_appsinstalled (python E) raw = (Inl ValueError, [])"
    unfolding parse_five_fields[OF assms(1,2,3,4)] by (simp add: x1 v y y')
  have h: "handle_line E opts raw st = (Some ValueError, st)"
    using p by (rule handle_line_raises)
  show ?thesis using p h by (simp add: process_file_results_def first_raised_append)
qed

lemma decode_sup2: "bytes_decode sup2_line =
    Inr (lit ''idfa'' @ [9] @ lit ''X1'' @ [9] @ lit ''55.55'' @ [9] @ lit ''42.42'' @ [9] @ lit ''10,'' @ [0xB2] @ lit '',30'')"
  by (simp add: sup2_line_def bytes_decode_def lit_def is_cont_def)

lemma split_sup2: "split_on 0x09 (str_strip (lit ''idfa'' @ [9] @ lit ''X1'' @ [9] @ lit ''55.55'' @ [9] @ lit ''42.42'' @ [9] @ lit ''10,'' @ [0xB2] @ lit '',30'')) =
    [lit ''idfa'', lit ''X1'', lit ''55.55'', lit ''42.42'', lit ''10,'' @ [0xB2] @ lit '',30'']"
  by (simp add: str_strip_def strip_by_def py_isspace_def lit_def)

lemma split_apps_sup2: "split_on 0x2C (lit ''10,'' @ [0xB2] @ lit '',30'') = [lit ''10'', [0xB2], lit ''30'']"
  by (simp add: lit_def)

lemma isdigit_sup2: "py_isdigit (python env_sup2) [0xB2]"
  by (simp add: py_isdigit_def env_sup2_def env0_def)

lemma int_sup2: "py_int (python env_sup2) (str_strip [0xB2]) = Inl ValueError"
  by (simp add: text_defs number_defs env_sup2_def env0_def)

theorem C4_fallback_raises_on_digit_not_int_witness:
  "bytes_decode sup2_line =
     Inr (lit ''idfa'' @ [9] @ lit ''X1'' @ [9] @ lit ''55.55'' @ [9] @ lit ''42.42'' @ [9] @ lit ''10,'' @ [0xB2] @ lit '',30'') \<and>
   parse_appsinstalled (python env_sup2) sup2_line = (Inl ValueError, []) \<and>
   handle_line env_sup2 opts0 sup2_line state0 = (Some ValueError, state0) \<and>
   line_worker env_sup2 opts0 (process_file_puts opts0 [sup2_line @ newline, mixed_line @ newline]) state0 =
     (Raised ValueError, [Some mixed_line, None], state0) \<and>
   process_file_results env_sup2 ''/data/a.tsv.gz'' [Raised ValueError] state0 = (Inl ValueError, state0)"
proof -
  have n: "lit ''idfa'' \<noteq> []" "lit ''X1'' \<noteq> []" by (simp_all add: lit_def)
  have m: "[0xB2] \<in> set (split_on 0x2C (lit ''10,'' @ [0xB2] @ lit '',30''))"
    unfolding split_apps_sup2 by simp
  have fed: "fed_lines [sup2_line @ newline, mixed_line @ newline] = [sup2_line, mixed_line]"
    by (simp add: fed_lines_def bytes_strip_def strip_by_def ascii_ws_def sup2_line_def mixed_line_def newline_def)
  have w: "nat (workers opts0) = 1" by (simp add: opts0_def)
  note c = C4_fallback_raises_on_digit_not_int[OF decode_sup2 split_sup2 n m isdigit_sup2 int_sup2,
      of opts0 state0 "[Some mixed_line, None]" "[]" "''/data/a.tsv.gz''" "[]" state0]
  show ?thesis
    unfolding process_file_puts_def fed w using c decode_sup2 by simp
qed

text \<open>
  The fallback where it works. Take a decodable line of five fields with a device type and a
  device id that are not empty and coordinates that \<^verbatim>\<open>float\<close> accepts. If \<^verbatim>\<open>int\<close> rejects
  some element of the apps field and accepts every element for which \<^verbatim>\<open>isdigit\<close> holds, the
  parse succeeds and the record's apps are the values of exactly the \<^verbatim>\<open>isdigit\<close> elements,
  in order; the anomaly is logged. When moreover the device type is routed and the insert
  reports success, the worker adds one to the processed tally and leaves the error tally
  alone.
\<close>

theorem mixed_apps_keep_digit_elements:
  assumes "bytes_decode raw = Inr s"
    and "split_on 0x09 (str_strip s) = [dt, di, lat_s, lon_s, raw_apps]"
    and "dt \<noteq> []" and "di \<noteq> []"
    and "py_float (python E) lat_s = Inr la" and "py_float (python E) lon_s = Inr lo"
    and "\<exists>a \<in> set (split_on 0x2C raw_apps). \<exists>x. py_int (python E) (str_strip a) = Inl x"
    and "list_all2 (\<lambda>a n. py_int (python E) (str_strip a) = Inr n)
           (filter (py_isdigit (python E)) (split_on 0x2C raw_apps)) as"
  shows "parse_appsinstalled (python E) raw =
           (Inr (Some \<lparr>dev_type = dt, dev_id = di, lat = la, lon = lo, apps = as\<rparr>),
            [LogInfo (NotAllDigits (str_strip s))]) \<and>
         (\<forall>addr st st1.
            device_memc opts dt = Some addr \<and> addr \<noteq> [] \<and>
            insert_appsinstalled E addr \<lparr>dev_type = dt, dev_id = di, lat = la, lon = lo, apps = as\<rparr>
              (dry opts) (emit [LogInfo (NotAllDigits (str_strip s))] st) = (Inr True, st1)
            \<longrightarrow> handle_line E opts raw st =
                  (None, st1\<lparr>processed := processed st + 1, events := events st1 @ [TaskDone]\<rparr>) \<and>
                errors st1 = errors st)"
proof -
  obtain x where x: "int_each (python E) (split_on 0x2C raw_apps) = Inl x"
    using assms(7) int_each_rejects[of "python E" "split_on 0x2C raw_apps"] by blast
  have v: "is_ValueError x" using int_each_error[OF x] by simp
  have k: "int_each (python E) (filter (py_isdigit (python E)) (split_on 0x2C raw_apps)) = Inr as"
    using assms(8) by (simp add: int_each_accepts)
  have p: "parse_appsinstalled (python E) raw =
           (Inr (Some \<lparr>dev_type = dt, dev_id = di, lat = la, lon = lo, apps = as\<rparr>),
            [LogInfo (NotAllDigits (str_strip s))])"
    unfolding parse_five_fields[OF assms(1,2,3,4)]
    by (simp add: x v k parse_geo_ok[OF assms(5,6)])
  have w: "handle_line E opts raw st =
             (None, st1\<lparr>processed := processed st + 1, events := events st1 @ [TaskDone]\<rparr>) \<and>
           errors st1 = errors st"
    if r: "device_memc opts dt = Some addr" and n: "addr \<noteq> []"
      and i: "insert_appsinstalled E addr \<lparr>dev_type = dt, dev_id = di, lat = la, lon = lo, apps = as\<rparr>
              (dry opts) (emit [LogInfo (NotAllDigits (str_strip s))] st) = (Inr True, st1)"
    for addr st st1
  proof -
    have t: "processed st1 = processed st \<and> errors st1 = errors st"
      using insert_tallies[OF i] by (simp add: emit_def)
    have r': "device_memc opts (dev_type \<lparr>dev_type = dt, dev_id = di, lat = la, lon = lo, apps = as\<rparr>) = Some addr"
      using r by simp
    show ?thesis
      unfolding handle_line_routed[OF p r' n i] using t by (simp add: emit_def)
  qed
  show ?thesis using p w by blast
qed

lemma decode_mixed: "bytes_decode mixed_line =
    Inr (lit ''idfa'' @ [9] @ lit ''X1'' @ [9] @ lit ''55.55'' @ [9] @ lit ''42.42'' @ [9] @ lit ''10,abc,30'')"
  by (simp add: mixed_line_def bytes_decode_def lit_def)

lemma split_mixed: "split_on 0x09 (str_strip (lit ''idfa'' @ [9] @ lit ''X1'' @ [9] @ lit ''55.55'' @ [9] @ lit ''42.42'' @ [9] @ lit ''10,abc,30'')) =
    [lit ''idfa'', lit ''X1'', lit ''55.55'', lit ''42.42'', lit ''10,abc,30'']"
  by (simp add: str_strip_def strip_by_def py_isspace_def lit_def)

lemma strip_mixed: "str_strip (lit ''idfa'' @ [9] @ lit ''X1'' @ [9] @ lit ''55.55'' @ [9] @ lit ''42.42'' @ [9] @ lit ''10,abc,30'') =
    lit ''idfa'' @ [9] @ lit ''X1'' @ [9] @ lit ''55.55'' @ [9] @ lit ''42.42'' @ [9] @ lit ''10,abc,30''"
  by (simp add: str_strip_def strip_by_def py_isspace_def lit_def)

lemma split_apps: "split_on 0x2C (lit ''10,abc,30'') = [lit ''10'', lit ''abc'', lit ''30'']"
  by (simp add: lit_def)

lemma int_abc: "py_int I (str_strip (lit ''abc'')) = Inl ValueError"
  by (simp add: text_defs number_defs)

lemma int_10: "py_int I (str_strip (lit ''10'')) = Inr 10"
  by (simp add: text_defs number_defs)

lemma int_30: "py_int I (str_strip (lit ''30'')) = Inr 30"
  by (simp add: text_defs number_defs)

theorem mixed_apps_keep_digit_elements_witness:
  "parse_appsinstalled (python env0) mixed_line =
     (Inr (Some \<lparr>dev_type = lit ''idfa'', dev_id = lit ''X1'',
                  lat = Finite (3908983739069235 / 70368744177664),
                  lon = Finite (2985042128016507 / 70368744177664), apps = [10, 30]\<rparr>),
      [LogInfo (NotAllDigits (lit ''idfa'' @ [9] @ lit ''X1'' @ [9] @ lit ''55.55'' @ [9] @ lit ''42.42'' @ [9] @ lit ''10,abc,30''))]) \<and>
   fst (handle_line env0 opts0 mixed_line state0) = None \<and>
   processed (snd (handle_line env0 opts0 mixed_line state0)) = 1 \<and>
   errors (snd (handle_line env0 opts0 mixed_line state0)) = 0"
proof -
  let ?a = "\<lparr>dev_type = lit ''idfa'', dev_id = lit ''X1'',
                  lat = Finite (3908983739069235 / 70368744177664),
                  lon = Finite (2985042128016507 / 70368744177664), apps = [10, 30]\<rparr>"
  let ?line = "lit ''idfa'' @ [9] @ lit ''X1'' @ [9] @ lit ''55.55'' @ [9] @ lit ''42.42'' @ [9] @ lit ''10,abc,30''"
  let ?st1 = "state0\<lparr>instances := [''127.0.0.1:33013''],
      events := [LogInfo (NotAllDigits ?line), ClientNew ''127.0.0.1:33013'',
                 MemcSet ''127.0.0.1:33013'' (lit ''idfa:X1'') []]\<rparr>"
  have n: "lit ''idfa'' \<noteq> []" "lit ''X1'' \<noteq> []" by (simp_all add: lit_def)
  have 7: "\<exists>a \<in> set (split_on 0x2C (lit ''10,abc,30'')). \<exists>x. py_int (python env0) (str_strip a) = Inl x"
    unfolding split_apps using int_abc by simp
  have 8: "list_all2 (\<lambda>a n. py_int (python env0) (str_strip a) = Inr n)
           (filter (py_isdigit (python env0)) (split_on 0x2C (lit ''10,abc,30''))) [10, 30]"
    unfolding split_apps isdigit_filter using int_10 int_30 by simp
  have r: "device_memc opts0 (lit ''idfa'') = Some ''127.0.0.1:33013''"
    by (simp add: device_memc_def opts0_def lit_def)
  have i: "insert_appsinstalled env0 ''127.0.0.1:33013'' ?a (dry opts0)
             (emit [LogInfo (NotAllDigits (str_strip ?line))] state0) = (Inr True, ?st1)"
    unfolding strip_mixed
    by (simp add: insert_appsinstalled_def get_client_def env0_def opts0_def emit_def state0_def
          store_key_def lit_def)
  have c: "parse_appsinstalled (python env0) mixed_line = (Inr (Some ?a), [LogInfo (NotAllDigits (str_strip ?line))]) \<and>
         (\<forall>addr st st1.
            device_memc opts0 (lit ''idfa'') = Some addr \<and> addr \<noteq> [] \<and>
            insert_appsinstalled env0 addr ?a
              (dry opts0) (emit [LogInfo (NotAllDigits (str_strip ?line))] st) = (Inr True, st1)
            \<longrightarrow> handle_line env0 opts0 mixed_line st =
                  (None, st1\<lparr>processed := processed st + 1, events := events st1 @ [TaskDone]\<rparr>) \<and>
                errors st1 = errors st)"
    by (rule mixed_apps_keep_digit_elements[OF decode_mixed split_mixed n float_55_55 float_42_42 7 8])
  then have h: "handle_line env0 opts0 mixed_line state0 =
                  (None, ?st1\<lparr>processed := processed state0 + 1, events := events ?st1 @ [TaskDone]\<rparr>)"
    using r i by blast
  note c' = conjunct1[OF c[unfolded strip_mixed]]
  show ?thesis using c' h by (simp add: state0_def)
qed

lemma float_abc: "py_float I (lit ''abc'') = Inl ValueError"
  by (simp add: text_defs number_defs)

lemma decode_bad_geo: "bytes_decode mixed_bad_geo =
    Inr (lit ''idfa'' @ [9] @ lit ''X1'' @ [9] @ lit ''abc'' @ [9] @ lit ''42.42'' @ [9] @ lit ''10,abc,30'')"
  by (simp add: mixed_bad_geo_def bytes_decode_def lit_def)

lemma split_bad_geo: "split_on 0x09 (str_strip (lit ''idfa'' @ [9] @ lit ''X1'' @ [9] @ lit ''abc'' @ [9] @ lit ''42.42'' @ [9] @ lit ''10,abc,30'')) =
    [lit ''idfa'', lit ''X1'', lit ''abc'', lit ''42.42'', lit ''10,abc,30'']"
  by (simp add: str_strip_def strip_by_def py_isspace_def lit_def)

lemma strip_bad_geo: "str_strip (lit ''idfa'' @ [9] @ lit ''X1'' @ [9] @ lit ''abc'' @ [9] @ lit ''42.42'' @ [9] @ lit ''10,abc,30'') =
    lit ''idfa'' @ [9] @ lit ''X1'' @ [9] @ lit ''abc'' @ [9] @ lit ''42.42'' @ [9] @ lit ''10,abc,30''"
  by (simp add: str_strip_def strip_by_def py_isspace_def lit_def)

lemma parse_bad_geo:
  "parse_appsinstalled I mixed_bad_geo =
     (Inr None,
      [LogInfo (NotAllDigits (lit ''idfa'' @ [9] @ lit ''X1'' @ [9] @ lit ''abc'' @ [9] @ lit ''42.42'' @ [9] @ lit ''10,abc,30'')),
       LogInfo (InvalidGeo (lit ''idfa'' @ [9] @ lit ''X1'' @ [9] @ lit ''abc'' @ [9] @ lit ''42.42'' @ [9] @ lit ''10,abc,30''))])"
proof -
  have n: "lit ''idfa'' \<noteq> []" "lit ''X1'' \<noteq> []" by (simp_all add: lit_def)
  show ?thesis
    unfolding parse_five_fields[OF decode_bad_geo split_bad_geo n] split_apps int_each_mixed
      isdigit_filter int_each_10_30 strip_bad_geo
    by (simp add: parse_geo_bad_lat[OF float_abc])
qed

lemma decode_unrouted: "bytes_decode mixed_unrouted =
    Inr (lit ''unknown'' @ [9] @ lit ''X1'' @ [9] @ lit ''55.55'' @ [9] @ lit ''42.42'' @ [9] @ lit ''10,abc,30'')"
  by (simp add: mixed_unrouted_def bytes_decode_def lit_def)

lemma split_unrouted: "split_on 0x09 (str_strip (lit ''unknown'' @ [9] @ lit ''X1'' @ [9] @ lit ''55.55'' @ [9] @ lit ''42.42'' @ [9] @ lit ''10,abc,30'')) =
    [lit ''unknown'', lit ''X1'', lit ''55.55'', lit ''42.42'', lit ''10,abc,30'']"
  by (simp add: str_strip_def strip_by_def py_isspace_def lit_def)

lemma strip_unrouted: "str_strip (lit ''unknown'' @ [9] @ lit ''X1'' @ [9] @ lit ''55.55'' @ [9] @ lit ''42.42'' @ [9] @ lit ''10,abc,30'') =
    lit ''unknown'' @ [9] @ lit ''X1'' @ [9] @ lit ''55.55'' @ [9] @ lit ''42.42'' @ [9] @ lit ''10,abc,30''"
  by (simp add: str_strip_def strip_by_def py_isspace_def lit_def)

lemma parse_unrouted:
  "parse_appsinstalled I mixed_unrouted =
     (Inr (Some \<lparr>dev_type = lit ''unknown'', dev_id = lit ''X1'',
                  lat = Finite (3908983739069235 / 70368744177664),
                  lon = Finite (2985042128016507 / 70368744177664), apps = [10, 30]\<rparr>),
      [LogInfo (NotAllDigits (lit ''unknown'' @ [9] @ lit ''X1'' @ [9] @ lit ''55.55'' @ [9] @ lit ''42.42'' @ [9] @ lit ''10,abc,30''))])"
proof -
  have n: "lit ''unknown'' \<noteq> []" "lit ''X1'' \<noteq> []" by (simp_all add: lit_def)
  show ?thesis
    unfolding parse_five_fields[OF decode_unrouted split_unrouted n] split_apps int_each_mixed
      isdigit_filter int_each_10_30 strip_unrouted
    by (simp add: parse_geo_ok[OF float_55_55 float_42_42])
qed

lemma decode_no_id: "bytes_decode mixed_no_id =
    Inr (lit ''idfa'' @ [9] @ [9] @ lit ''55.55'' @ [9] @ lit ''42.42'' @ [9] @ lit ''10,abc,30'')"
  by (simp add: mixed_no_id_def bytes_decode_def lit_def)

lemma split_no_id: "split_on 0x09 (str_strip (lit ''idfa'' @ [9] @ [9] @ lit ''55.55'' @ [9] @ lit ''42.42'' @ [9] @ lit ''10,abc,30'')) =
    [lit ''idfa'', [], lit ''55.55'', lit ''42.42'', lit ''10,abc,30'']"
  by (simp add: str_strip_def strip_by_def py_isspace_def lit_def)

text \<open>
  The same mixed apps field in lines that fail at another stage, as the spec has it: with a
  latitude that is no number, and with an empty device id, the parse yields no record; with a
  device type that has no route the record is parsed but the worker counts an error.
\<close>

lemma mixed_apps_other_stages:
  "split_on 0x2C (lit ''10,abc,30'') = [lit ''10'', lit ''abc'', lit ''30''] \<and>
   bytes_decode mixed_bad_geo =
     Inr (lit ''idfa'' @ [9] @ lit ''X1'' @ [9] @ lit ''abc'' @ [9] @ lit ''42.42'' @ [9] @ lit ''10,abc,30'') \<and>
   length (split_on 0x09 (str_strip (lit ''idfa'' @ [9] @ lit ''X1'' @ [9] @ lit ''abc'' @ [9] @ lit ''42.42'' @ [9] @ lit ''10,abc,30''))) = 5 \<and>
   fst (parse_appsinstalled (python env0) mixed_bad_geo) = Inr None \<and>
   fst (handle_line env0 opts0 mixed_bad_geo state0) = None \<and>
   processed (snd (handle_line env0 opts0 mixed_bad_geo state0)) = 0 \<and>
   errors (snd (handle_line env0 opts0 mixed_bad_geo state0)) = 1 \<and>
   bytes_decode mixed_no_id =
     Inr (lit ''idfa'' @ [9] @ [9] @ lit ''55.55'' @ [9] @ lit ''42.42'' @ [9] @ lit ''10,abc,30'') \<and>
   length (split_on 0x09 (str_strip (lit ''idfa'' @ [9] @ [9] @ lit ''55.55'' @ [9] @ lit ''42.42'' @ [9] @ lit ''10,abc,30''))) = 5 \<and>
   fst (parse_appsinstalled (python env0) mixed_no_id) = Inr None \<and>
   bytes_decode mixed_unrouted =
     Inr (lit ''unknown'' @ [9] @ lit ''X1'' @ [9] @ lit ''55.55'' @ [9] @ lit ''42.42'' @ [9] @ lit ''10,abc,30'') \<and>
   length (split_on 0x09 (str_strip (lit ''unknown'' @ [9] @ lit ''X1'' @ [9] @ lit ''55.55'' @ [9] @ lit ''42.42'' @ [9] @ lit ''10,abc,30''))) = 5 \<and>
   fst (handle_line env0 opts0 mixed_unrouted state0) = None \<and>
   processed (snd (handle_line env0 opts0 mixed_unrouted state0)) = 0 \<and>
   errors (snd (handle_line env0 opts0 mixed_unrouted state0)) = 1"
proof -
  have l1: "length (split_on 0x09 (str_strip (lit ''idfa'' @ [9] @ lit ''X1'' @ [9] @ lit ''abc'' @ [9] @ lit ''42.42'' @ [9] @ lit ''10,abc,30''))) = 5"
    unfolding split_bad_geo by simp
  have h1: "handle_line env0 opts0 mixed_bad_geo state0 =
      (None, emit [TaskDone] ((emit [LogInfo (NotAllDigits (lit ''idfa'' @ [9] @ lit ''X1'' @ [9] @ lit ''abc'' @ [9] @ lit ''42.42'' @ [9] @ lit ''10,abc,30'')),
       LogInfo (InvalidGeo (lit ''idfa'' @ [9] @ lit ''X1'' @ [9] @ lit ''abc'' @ [9] @ lit ''42.42'' @ [9] @ lit ''10,abc,30''))] state0)\<lparr>errors := errors state0 + 1\<rparr>))"
    unfolding handle_line_def parse_bad_geo by simp
  have l2: "length (split_on 0x09 (str_strip (lit ''idfa'' @ [9] @ [9] @ lit ''55.55'' @ [9] @ lit ''42.42'' @ [9] @ lit ''10,abc,30''))) = 5"
    unfolding split_no_id by simp
  have p2: "parse_appsinstalled (python env0) mixed_no_id = (Inr None, [])"
    using decode_no_id split_no_id by (rule parse_empty_id) simp
  have l3: "length (split_on 0x09 (str_strip (lit ''unknown'' @ [9] @ lit ''X1'' @ [9] @ lit ''55.55'' @ [9] @ lit ''42.42'' @ [9] @ lit ''10,abc,30''))) = 5"
    unfolding split_unrouted by simp
  have u: "device_memc opts0 (dev_type \<lparr>dev_type = lit ''unknown'', dev_id = lit ''X1'',
                  lat = Finite (3908983739069235 / 70368744177664),
                  lon = Finite (2985042128016507 / 70368744177664), apps = [10, 30]\<rparr>) = None"
    by (simp add: device_memc_def lit_def)
  note h3 = handle_line_unrouted[OF parse_unrouted u, of env0 state0]
  have a: "fst (parse_appsinstalled (python env0) mixed_bad_geo) = Inr None \<and>
   fst (handle_line env0 opts0 mixed_bad_geo state0) = None \<and>
   processed (snd (handle_line env0 opts0 mixed_bad_geo state0)) = 0 \<and>
   errors (snd (handle_line env0 opts0 mixed_bad_geo state0)) = 1"
    unfolding h1 parse_bad_geo by (simp add: emit_def state0_def)
  have c: "fst (handle_line env0 opts0 mixed_unrouted state0) = None \<and>
   processed (snd (handle_line env0 opts0 mixed_unrouted state0)) = 0 \<and>
   errors (snd (handle_line env0 opts0 mixed_unrouted state0)) = 1"
    unfolding h3 by (simp add: state0_def)
  show ?thesis
    using split_apps decode_bad_geo l1 a decode_no_id l2 p2 decode_unrouted l3 c
    by (simp only: fst_conv simp_thms)
qed

section \<open>A line that raises is counted nowhere\<close>

lemma decode_six_fields: "bytes_decode six_fields =
    Inr (lit ''idfa'' @ [9] @ lit ''X1'' @ [9] @ lit ''55.55'' @ [9] @ lit ''42.42'' @ [9] @ lit ''1,2'' @ [9] @ lit ''extra'')"
  by (simp add: six_fields_def bytes_decode_def lit_def)

lemma split_six_fields: "split_on 0x09 (str_strip (lit ''idfa'' @ [9] @ lit ''X1'' @ [9] @ lit ''55.55'' @ [9] @ lit ''42.42'' @ [9] @ lit ''1,2'' @ [9] @ lit ''extra'')) =
    [lit ''idfa'', lit ''X1'', lit ''55.55'', lit ''42.42'', lit ''1,2'', lit ''extra'']"
  by (simp add: str_strip_def strip_by_def py_isspace_def lit_def)

lemma fed_example: "fed_lines [six_fields @ newline, mixed_line @ newline] = [six_fields, mixed_line]"
  by (simp add: fed_lines_def bytes_strip_def strip_by_def ascii_ws_def six_fields_def mixed_line_def newline_def)

text \<open>
  Claim C9 says that the two tallies add up to the number of lines fed into the queue. A
  file of two lines, the first of six fields, run by one worker: the worker ends with
  \<^verbatim>\<open>ValueError\<close> on the first line, the second line and the sentinel stay in the queue, and
  both tallies are still 0 while two lines were fed.
\<close>

theorem C9_raising_line_counted_nowhere:
  "fed_lines [six_fields @ newline, mixed_line @ newline] = [six_fields, mixed_line] \<and>
   line_worker env0 opts0 (process_file_puts opts0 [six_fields @ newline, mixed_line @ newline]) state0 =
     (Raised ValueError, [Some mixed_line, None], state0) \<and>
   processed state0 + errors state0 = 0"
proof -
  have l: "5 < length (split_on 0x09 (str_strip (lit ''idfa'' @ [9] @ lit ''X1'' @ [9] @ lit ''55.55'' @ [9] @ lit ''42.42'' @ [9] @ lit ''1,2'' @ [9] @ lit ''extra'')))"
    unfolding split_six_fields by simp
  have p: "parse_appsinstalled (python env0) six_fields = (Inl ValueError, [])"
    using decode_six_fields l by (rule parse_too_many)
  have h: "handle_line env0 opts0 six_fields state0 = (Some ValueError, state0)"
    using p by (rule handle_line_raises)
  have z: "processed state0 + errors state0 = 0" by (simp add: state0_def)
  have w: "nat (workers opts0) = 1" by (simp add: opts0_def)
  show ?thesis
    unfolding process_file_puts_def fed_example w using z by (simp add: h)
qed

theorem C9_raising_line_counted_nowhere_witness:
  "length (fed_lines [six_fields @ newline, mixed_line @ newline]) = 2 \<and>
   fst (line_worker env0 opts0 (process_file_puts opts0 [six_fields @ newline, mixed_line @ newline]) state0) =
     Raised ValueError \<and>
   processed (snd (snd (line_worker env0 opts0
       (process_file_puts opts0 [six_fields @ newline, mixed_line @ newline]) state0))) +
   errors (snd (snd (line_worker env0 opts0
       (process_file_puts opts0 [six_fields @ newline, mixed_line @ newline]) state0))) = 0"
  using C9_raising_line_counted_nowhere by (simp add: state0_def)

section \<open>The round trip of the serializer\<close>

lemma unvarint_varint: "unvarint (varint n @ r) = Some (n, r)"
proof (induction n rule: varint.induct)
  case (1 n)
  show ?case
  proof (cases "n < 128")
    case True
    then show ?thesis by (subst varint.simps) simp
  next
    case False
    have "unvarint (varint n @ r) = unvarint ((128 + n mod 128) # varint (n div 128) @ r)"
      using False by (subst varint.simps) simp
    also have "\<dots> = Some (n mod 128 + 128 * (n div 128), r)"
      using 1[OF False] by simp
    finally show ?thesis by simp
  qed
qed

lemma le_value_bytes: "le_value (le_bytes k n) = n mod 256 ^ k"
proof (induction k arbitrary: n)
  case 0
  then show ?case by simp
next
  case (Suc k)
  have "n mod 256 + 256 * (n div 256 mod 256 ^ k) = n mod (256 * 256 ^ k)"
    by (simp add: mod_mult2_eq)
  then show ?case using Suc by simp
qed

lemma length_le_bytes: "length (le_bytes k n) = k"
  by (induction k arbitrary: n) simp_all

lemma int64_roundtrip:
  assumes "- (2 ^ 63) \<le> a" and "a < 2 ^ 63"
  shows "int64_of_bits (int64_bits a) = a"
proof (cases "0 \<le> a")
  case True
  then have "a mod 2 ^ 64 = a" using assms by simp
  then show ?thesis using True assms by (simp add: int64_bits_def int64_of_bits_def)
next
  case False
  have "a mod 2 ^ 64 = (a + 2 ^ 64) mod 2 ^ 64" by simp
  also have "\<dots> = a + 2 ^ 64" using assms False by (intro mod_pos_pos_trivial) simp_all
  finally have m: "a mod 2 ^ 64 = a + 2 ^ 64" .
  show ?thesis unfolding int64_bits_def int64_of_bits_def m using assms False by simp
qed

lemma bits_fields:
  fixes S E M :: nat
  assumes "M < 2 ^ 52" and "E < 2048" and "S < 2"
  shows "(S * 2 ^ 63 + E * 2 ^ 52 + M) div 2 ^ 63 mod 2 = S"
    and "(S * 2 ^ 63 + E * 2 ^ 52 + M) div 2 ^ 52 mod 2048 = E"
    and "(S * 2 ^ 63 + E * 2 ^ 52 + M) mod 2 ^ 52 = M"
    and "S * 2 ^ 63 + E * 2 ^ 52 + M < 2 ^ 64"
proof -
  define c :: nat where "c = 2 ^ 52"
  define x where "x = S * 2 ^ 63 + E * 2 ^ 52 + M"
  have c: "0 < c" "M < c" using assms(1) by (simp_all add: c_def)
  have e: "x = (S * 2048 + E) * c + M"
    by (simp add: x_def c_def algebra_simps)
  have d: "x div c = S * 2048 + E" unfolding e using c by simp
  have "x div c mod 2048 = E" unfolding d using assms(2) by simp
  then show "(S * 2 ^ 63 + E * 2 ^ 52 + M) div 2 ^ 52 mod 2048 = E"
    by (simp only: x_def c_def)
  have "x mod c = M" unfolding e using c by simp
  then show "(S * 2 ^ 63 + E * 2 ^ 52 + M) mod 2 ^ 52 = M"
    by (simp only: x_def c_def)
  show "(S * 2 ^ 63 + E * 2 ^ 52 + M) div 2 ^ 63 mod 2 = S"
    using assms by simp
  show "S * 2 ^ 63 + E * 2 ^ 52 + M < 2 ^ 64"
    using assms by simp
qed

lemma representable_abs:
  assumes "representable q" and "q \<noteq> 0"
  shows "round_binary64 \<bar>q\<bar> = \<bar>q\<bar> \<and> \<bar>q\<bar> < pow2 1024"
proof (cases "0 < q")
  case True
  have "(if pow2 1024 \<le> round_binary64 q then PosInf else Finite (round_binary64 q)) = Finite q"
    using assms True by (simp add: representable_def to_binary64_def Let_def)
  then have "round_binary64 q = q \<and> \<not> pow2 1024 \<le> round_binary64 q"
    by (auto split: if_splits)
  then show ?thesis using True by simp
next
  case False
  then have n: "q < 0" using assms(2) by simp
  have "(if pow2 1024 \<le> round_binary64 (- q) then NegInf
         else if round_binary64 (- q) = 0 then NegZero
         else Finite (- round_binary64 (- q))) = Finite q"
    using assms n by (simp add: representable_def to_binary64_def Let_def)
  then have "- round_binary64 (- q) = q \<and> \<not> pow2 1024 \<le> round_binary64 (- q)"
    by (auto split: if_splits)
  then show ?thesis using n by auto
qed

lemma float_bits_roundtrip_nonzero:
  assumes "representable q" and "q \<noteq> 0"
  shows "float_of_bits (float_bits (Finite q)) = Finite q \<and> float_bits (Finite q) < 2 ^ 64"
proof -
  define a where "a = \<bar>q\<bar>"
  define e where "e = ilog2 a"
  define k where "k = max (e - 52) (- 1074)"
  define m where "m = round_half_even (a / pow2 k)"
  define S :: nat where "S = (if q < 0 then 1 else 0)"
  define sg :: rat where "sg = (if q < 0 then - 1 else 1)"
  have pos: "0 < a" using assms(2) by (simp add: a_def)
  have q: "q = sg * a" by (simp add: sg_def a_def)
  have rb: "round_binary64 a = a" and lt: "a < pow2 1024"
    using representable_abs[OF assms] by (simp_all add: a_def)
  have lo: "pow2 e \<le> a" and hi: "a < pow2 (e + 1)"
    using ilog2_bounds[OF pos] by (simp_all add: e_def)
  have e_hi: "e \<le> 1023"
  proof (rule ccontr)
    assume "\<not> e \<le> 1023"
    then have "pow2 1024 \<le> pow2 e" by (intro pow2_mono) simp
    then show False using lo lt by linarith
  qed
  have am: "a = of_int m * pow2 k"
    using rb[symmetric] by (simp add: round_binary64_def e_def k_def m_def Let_def)
  have mpos: "0 < m"
  proof (rule ccontr)
    assume "\<not> 0 < m"
    then have "(of_int m :: rat) \<le> 0" by simp
    then have "of_int m * pow2 k \<le> 0" using pow2_pos[of k] by (simp add: mult_le_0_iff)
    then show False using pos am by simp
  qed
  have sbit: "S < 2" by (simp add: S_def)
  have sS: "(if q < 0 then 2 ^ 63 else 0) = S * 2 ^ 63" by (simp add: S_def)
  show ?thesis
  proof (cases "- 1022 \<le> e")
    case True
    then have k: "k = e - 52" by (simp add: k_def)
    have sc: "a * pow2 (52 - e) = of_int m"
    proof -
      have "pow2 (e - 52) * pow2 (52 - e) = 1" by (simp add: pow2_add[symmetric] pow2_def)
      then show ?thesis unfolding am k by (simp add: mult.assoc)
    qed
    have "pow2 e * pow2 (52 - e) \<le> a * pow2 (52 - e)"
      using lo pow2_pos[of "52 - e"] by (simp add: mult_le_cancel_right_pos)
    then have "pow2 52 \<le> of_int m" unfolding sc by (simp add: pow2_add[symmetric])
    then have "(of_int (2 ^ 52) :: rat) \<le> of_int m" by (simp add: pow2_def)
    then have m_lo: "2 ^ 52 \<le> m" by (simp only: of_int_le_iff)
    have "a * pow2 (52 - e) < pow2 (e + 1) * pow2 (52 - e)"
      using hi pow2_pos[of "52 - e"] by (simp add: mult_less_cancel_right_pos)
    then have "of_int m < pow2 53" unfolding sc by (simp add: pow2_add[symmetric] add.commute)
    then have "(of_int m :: rat) < of_int (2 ^ 53)" by (simp add: pow2_def)
    then have m_hi: "m < 2 ^ 53" by (simp only: of_int_less_iff)
    define M where "M = nat m - 2 ^ 52"
    define E where "E = nat (e + 1023)"
    have M: "M < 2 ^ 52" using m_lo m_hi by (simp add: M_def)
    have E: "E < 2048" "E \<noteq> 0" "E \<noteq> 2047" using True e_hi by (simp_all add: E_def)
    have fl: "\<lfloor>a * pow2 (52 - e)\<rfloor> = m" unfolding sc by simp
    have b: "float_bits (Finite q) = S * 2 ^ 63 + E * 2 ^ 52 + M"
      using assms(2) True
      by (simp add: float_bits_def a_def[symmetric] e_def[symmetric] Let_def fl sS M_def E_def)
    have v: "of_nat (2 ^ 52 + M) = (of_int m :: rat)"
    proof -
      have "int (2 ^ 52 + M) = m" using m_lo by (simp add: M_def)
      then show ?thesis by (metis of_int_of_nat_eq)
    qed
    have x: "int E - 1075 = e - 52" using True by (simp add: E_def)
    have "float_of_bits (S * 2 ^ 63 + E * 2 ^ 52 + M) =
            Finite (sg * of_nat (2 ^ 52 + M) * pow2 (int E - 1075))"
      unfolding float_of_bits_def bits_fields[OF M E(1) sbit] Let_def
      using E(2,3) by (simp add: S_def sg_def)
    also have "\<dots> = Finite q" unfolding v x q am k by (simp add: mult.assoc)
    finally show ?thesis unfolding b using bits_fields(4)[OF M E(1) sbit] by simp
  next
    case False
    then have k: "k = - 1074" by (simp add: k_def)
    have sc: "a * pow2 1074 = of_int m"
    proof -
      have "pow2 (- 1074) * pow2 1074 = 1" by (simp add: pow2_add[symmetric] pow2_def)
      then show ?thesis unfolding am k by (simp add: mult.assoc)
    qed
    have "pow2 (e + 1) \<le> pow2 (- 1022)" using False by (intro pow2_mono) simp
    then have "a < pow2 (- 1022)" using hi by linarith
    then have "a * pow2 1074 < pow2 (- 1022) * pow2 1074"
      using pow2_pos[of 1074] by (simp add: mult_less_cancel_right_pos)
    then have "of_int m < pow2 52" unfolding sc by (simp add: pow2_add[symmetric])
    then have "(of_int m :: rat) < of_int (2 ^ 52)" by (simp add: pow2_def)
    then have m_hi: "m < 2 ^ 52" by (simp only: of_int_less_iff)
    define M where "M = nat m"
    have M: "M < 2 ^ 52" "M \<noteq> 0" using m_hi mpos by (simp_all add: M_def)
    have fl: "\<lfloor>a * pow2 1074\<rfloor> = m" unfolding sc by simp
    have b: "float_bits (Finite q) = S * 2 ^ 63 + 0 * 2 ^ 52 + M"
      using assms(2) False
      by (simp add: float_bits_def a_def[symmetric] e_def[symmetric] Let_def fl sS M_def)
    have v: "of_nat M = (of_int m :: rat)"
    proof -
      have "int M = m" using mpos by (simp add: M_def)
      then show ?thesis by (metis of_int_of_nat_eq)
    qed
    have z: "(0::nat) < 2048" by simp
    have "float_of_bits (S * 2 ^ 63 + 0 * 2 ^ 52 + M) = Finite (sg * of_nat M * pow2 (- 1074))"
      unfolding float_of_bits_def bits_fields[OF M(1) z sbit] Let_def
      using M(2) by (simp add: S_def sg_def)
    also have "\<dots> = Finite q" unfolding v q am k by (simp add: mult.assoc)
    finally show ?thesis unfolding b using bits_fields(4)[OF M(1) z sbit] by simp
  qed
qed

lemma float_bits_roundtrip:
  assumes "finite_float f"
  shows "float_of_bits (float_bits f) = f \<and> float_bits f < 2 ^ 64"
proof (cases f)
  case (Finite q)
  show ?thesis
  proof (cases "q = 0")
    case True
    then show ?thesis using Finite by (simp add: float_bits_def float_of_bits_def)
  next
    case False
    have "representable q" using assms Finite by simp
    from float_bits_roundtrip_nonzero[OF this False] show ?thesis using Finite by simp
  qed
next
  case NegZero
  then show ?thesis by (simp add: float_bits_def float_of_bits_def)
qed (use assms in simp_all)

lemma varint_bytes: "list_all (\<lambda>b. b < 256) (varint n)"
proof (induction n rule: varint.induct)
  case (1 n)
  show ?case
  proof (cases "n < 128")
    case True
    then show ?thesis by (subst varint.simps) simp
  next
    case False
    have "128 + n mod 128 < 256" by simp
    then show ?thesis using 1[OF False] False by (subst varint.simps) simp
  qed
qed

lemma le_bytes_bytes: "list_all (\<lambda>b. b < 256) (le_bytes k n)"
  by (induction k arbitrary: n) simp_all

lemma encode_payload_bytes: "list_all (\<lambda>b. b < 256) (encode_payload u)"
proof -
  have v: "b < 256" if "b \<in> set (varint n)" for b n
    using varint_bytes[of n] that by (simp add: list_all_iff)
  have l: "b < 256" if "b \<in> set (le_bytes k n)" for b k n
    using le_bytes_bytes[of k n] that by (simp add: list_all_iff)
  show ?thesis
    unfolding encode_payload_def list_all_iff by (auto dest: v l)
qed

lemma of_char_char_of: "list_all (\<lambda>b. b < 256) bs \<Longrightarrow> map of_char (map (char_of :: nat \<Rightarrow> char) bs) = bs"
  by (induction bs) simp_all

lemma decode_fixed64:
  assumes "b < 2 ^ 64"
  shows "take 8 (le_bytes 8 b @ r) = le_bytes 8 b" and "drop 8 (le_bytes 8 b @ r) = r"
    and "le_value (le_bytes 8 b) = b" and "8 \<le> length (le_bytes 8 b @ r)"
  using assms by (simp_all add: length_le_bytes le_value_bytes)

lemma decode_lat_step:
  assumes "b < 2 ^ 64"
  shows "decode_fields (0x09 # le_bytes 8 b @ r) u = decode_fields r (u\<lparr>ua_lat := float_of_bits b\<rparr>)"
proof -
  have "decode_fields (0x09 # xs) u =
          (if 8 \<le> length xs
           then decode_fields (drop 8 xs) (u\<lparr>ua_lat := float_of_bits (le_value (take 8 xs))\<rparr>)
           else None)" for xs
    by simp
  then show ?thesis by (simp only: decode_fixed64[OF assms] if_True)
qed

lemma decode_lon_step:
  assumes "b < 2 ^ 64"
  shows "decode_fields (0x11 # le_bytes 8 b @ r) u = decode_fields r (u\<lparr>ua_lon := float_of_bits b\<rparr>)"
proof -
  have "decode_fields (0x11 # xs) u =
          (if 8 \<le> length xs
           then decode_fields (drop 8 xs) (u\<lparr>ua_lon := float_of_bits (le_value (take 8 xs))\<rparr>)
           else None)" for xs
    by simp
  then show ?thesis by (simp only: decode_fixed64[OF assms] if_True)
qed

lemma decode_apps:
  assumes "list_all (\<lambda>a. - (2 ^ 63) \<le> a \<and> a < 2 ^ 63) as"
  shows "decode_fields (concat (map (\<lambda>a. 0x18 # varint (int64_bits a)) as)) u =
           Some (u\<lparr>ua_apps := ua_apps u @ as\<rparr>)"
  using assms
proof (induction as arbitrary: u)
  case Nil
  then show ?case by simp
next
  case (Cons a as)
  have r: "int64_of_bits (int64_bits a) = a" using Cons.prems by (simp add: int64_roundtrip)
  have "decode_fields (0x18 # varint (int64_bits a) @ concat (map (\<lambda>a. 0x18 # varint (int64_bits a)) as)) u =
        decode_fields (concat (map (\<lambda>a. 0x18 # varint (int64_bits a)) as)) (u\<lparr>ua_apps := ua_apps u @ [a]\<rparr>)"
    by (simp add: unvarint_varint r del: varint.simps)
  then show ?case using Cons.IH[of "u\<lparr>ua_apps := ua_apps u @ [a]\<rparr>"] Cons.prems
    by (simp del: varint.simps)
qed

lemma decode_encode_payload:
  assumes "valid_payload u"
  shows "decode_payload (encode_payload u) = Some u"
proof -
  have la: "float_of_bits (float_bits (ua_lat u)) = ua_lat u" "float_bits (ua_lat u) < 2 ^ 64"
    using assms float_bits_roundtrip[of "ua_lat u"] by (simp_all add: valid_payload_def)
  have lo: "float_of_bits (float_bits (ua_lon u)) = ua_lon u" "float_bits (ua_lon u) < 2 ^ 64"
    using assms float_bits_roundtrip[of "ua_lon u"] by (simp_all add: valid_payload_def)
  have ap: "list_all (\<lambda>a. - (2 ^ 63) \<le> a \<and> a < 2 ^ 63) (ua_apps u)"
    using assms by (simp add: valid_payload_def)
  let ?apps = "concat (map (\<lambda>a. 0x18 # varint (int64_bits a)) (ua_apps u))"
  let ?u0 = "\<lparr>ua_lat = Finite 0, ua_lon = Finite 0, ua_apps = []\<rparr>"
  have 1: "decode_fields (0x09 # le_bytes 8 (float_bits (ua_lat u)) @ 0x11 # le_bytes 8 (float_bits (ua_lon u)) @ ?apps) ?u0 =
           decode_fields (0x11 # le_bytes 8 (float_bits (ua_lon u)) @ ?apps) (?u0\<lparr>ua_lat := ua_lat u\<rparr>)"
    unfolding decode_lat_step[OF la(2)] la(1) ..
  have 2: "decode_fields (0x11 # le_bytes 8 (float_bits (ua_lon u)) @ ?apps) (?u0\<lparr>ua_lat := ua_lat u\<rparr>) =
           decode_fields ?apps (?u0\<lparr>ua_lat := ua_lat u, ua_lon := ua_lon u\<rparr>)"
    unfolding decode_lon_step[OF lo(2)] lo(1) ..
  have 3: "decode_fields ?apps (?u0\<lparr>ua_lat := ua_lat u, ua_lon := ua_lon u\<rparr>) = Some u"
    unfolding decode_apps[OF ap] by simp
  show ?thesis unfolding decode_payload_def encode_payload_def 1 2 3 ..
qed

text \<open>
  Claim C8, against the serializer modelled from the spec. For a record whose coordinates
  are finite floats and whose app ids fit 64 bits, decoding the encoded message gives the
  message back. The message is built from the record's \<open>lat\<close>, \<open>lon\<close> and \<open>apps\<close> alone
  (\<open>user_apps_of\<close>, from the code): changing the device type and id changes no byte of it.
\<close>

theorem C8_payload_round_trip:
  assumes "valid_payload (user_apps_of r)"
  shows "decode (encode (user_apps_of r)) = Some (user_apps_of r) \<and>
         encode (user_apps_of (r\<lparr>dev_type := t, dev_id := i\<rparr>)) = encode (user_apps_of r)"
proof -
  have "map of_char (encode (user_apps_of r)) = encode_payload (user_apps_of r)"
    unfolding encode_def by (rule of_char_char_of) (rule encode_payload_bytes)
  then show ?thesis
    using decode_encode_payload[OF assms] by (simp add: decode_def user_apps_of_def)
qed

theorem C8_payload_round_trip_witness:
  "decode (encode (user_apps_of \<lparr>dev_type = lit ''gaid'', dev_id = lit ''X2'', lat = Finite 1,
                                   lon = Finite 2, apps = [1, 300, - 1]\<rparr>)) =
     Some \<lparr>ua_lat = Finite 1, ua_lon = Finite 2, ua_apps = [1, 300, - 1]\<rparr> \<and>
   encode (user_apps_of \<lparr>dev_type = lit ''idfa'', dev_id = lit ''X1'', lat = Finite 1,
                           lon = Finite 2, apps = [1, 300, - 1]\<rparr>) =
   encode (user_apps_of \<lparr>dev_type = lit ''gaid'', dev_id = lit ''X2'', lat = Finite 1,
                           lon = Finite 2, apps = [1, 300, - 1]\<rparr>)"
proof -
  let ?r = "\<lparr>dev_type = lit ''gaid'', dev_id = lit ''X2'', lat = Finite 1,
             lon = Finite 2, apps = [1, 300, - 1]\<rparr>"
  have v: "valid_payload (user_apps_of ?r)"
    by (simp add: valid_payload_def user_apps_of_def representable_def binary64_one binary64_two)
  show ?thesis
    using C8_payload_round_trip[OF v, of "lit ''idfa''" "lit ''X1''"]
    by (simp add: user_apps_of_def)
qed

end
